theory Spec2Isabelle
  imports Main "HOL-Library.Signed_Division"
begin

section \<open>Array values and fatal errors\<close>

text \<open>
  The kernels of \<^verbatim>\<open>runtime/xcvm_ops.cc\<close> work on array values of the array engine
  (\<^verbatim>\<open>chainerx::Array\<close>).  An array value is modelled by its logical content: the
  dtype tag, the shape (the engine stores 64-bit signed dimension sizes) and the
  elements in row-major order.  Strides, offsets and the device are not modelled;
  the element type is a type parameter, so integer dtypes and idealised reals are
  covered, floating-point rounding and NaN are not.

  A failed \<^verbatim>\<open>CHECK\<close> of a kernel (\<open>CheckFailure\<close>), an exception thrown by the
  array engine or the C++ library (\<open>EngineError\<close>) and a division by zero
  (\<open>ArithmeticFault\<close>) all abort the run; they are the \<open>Inl\<close> results of the
  model.  The \<^verbatim>\<open>CHECK\<close> macros of \<^verbatim>\<open>common/log.h\<close> are not among the sources;
  \<^verbatim>\<open>CHECK_XX(a, b)\<close> is taken to abort unless the C++ comparison of \<open>a\<close> and \<open>b\<close>
  holds.
\<close>

datatype Dtype = kBool | kInt8 | kInt16 | kInt32 | kInt64 | kUInt8 | kFloat32 | kFloat64

datatype fatal = CheckFailure | EngineError | ArithmeticFault

record 'a Array =
  dtype :: Dtype
  shape :: "int list"
  elems :: "'a list"

definition GetTotalSize :: "'a Array \<Rightarrow> int" where
  "GetTotalSize a = prod_list (shape a)"

text \<open>A C++ \<^verbatim>\<open>int\<close>: conversion from a wider integer and overflowing arithmetic
  keep the low 32 bits, read as two's complement.\<close>

definition int32 :: "int \<Rightarrow> int" where
  "int32 k = signed_take_bit 31 k"

subsection \<open>Operations of the array engine used by the kernels\<close>

text \<open>\<^verbatim>\<open>chainerx::AsScalar\<close> needs an array of exactly one element.\<close>

definition AsScalar :: "'a Array \<Rightarrow> fatal + 'a" where
  "AsScalar a =
     (if GetTotalSize a = 1 then
        (case elems a of [] \<Rightarrow> Inl EngineError | v # _ \<Rightarrow> Inr v)
      else Inl EngineError)"

text \<open>\<^verbatim>\<open>chainerx::Maximum\<close> of an array and a scalar, in both argument orders, and
  the unary minus of an array, all elementwise.\<close>

definition Maximum :: "'a::linorder Array \<Rightarrow> 'a \<Rightarrow> 'a Array" where
  "Maximum a s = a\<lparr>elems := map (\<lambda>v. max v s) (elems a)\<rparr>"

definition MaximumS :: "'a::linorder \<Rightarrow> 'a Array \<Rightarrow> 'a Array" where
  "MaximumS s a = a\<lparr>elems := map (\<lambda>v. max s v) (elems a)\<rparr>"

definition Negative :: "'a::uminus Array \<Rightarrow> 'a Array" where
  "Negative a = a\<lparr>elems := map uminus (elems a)\<rparr>"

section \<open>Clip\<close>

text \<open>\<^verbatim>\<open>ClipOp::RunImpl\<close>:
  \<^verbatim>\<open>return -chainerx::Maximum(-chainerx::Maximum(x, min), -max);\<close>\<close>

definition ClipOp_RunImpl :: "'a::linordered_ab_group_add \<Rightarrow> 'a \<Rightarrow> 'a Array \<Rightarrow> 'a Array" where
  "ClipOp_RunImpl mn mx x = Negative (Maximum (Negative (Maximum x mn)) (- mx))"

section \<open>Register file, jump kernels and the Dispatcher\<close>

text \<open>
  Modelled from the spec: the state \<^verbatim>\<open>XCVMState\<close> (its program counter with
  \<^verbatim>\<open>set_pc\<close>, the variables, the bound inputs and outputs) and the Dispatcher loop
  are declared in \<^verbatim>\<open>runtime/xcvm_state.h\<close> and \<^verbatim>\<open>runtime/xcvm.cc\<close>, which are
  not among the sources; they follow sections 4.1 and 4.2 of the specification.
  The kernels themselves are those of \<^verbatim>\<open>runtime/xcvm_ops.cc\<close>.
\<close>

record 'a XCVMState =
  pc :: int
  variables :: "nat \<Rightarrow> 'a Array option"
  inputs :: "string \<Rightarrow> 'a Array option"
  outputs :: "string \<Rightarrow> 'a Array option"

definition set_pc :: "int \<Rightarrow> 'a XCVMState \<Rightarrow> 'a XCVMState" where
  "set_pc n st = st\<lparr>pc := n\<rparr>"

definition GetVar :: "'a XCVMState \<Rightarrow> nat \<Rightarrow> fatal + 'a Array" where
  "GetVar st v = (case variables st v of None \<Rightarrow> Inl CheckFailure | Some a \<Rightarrow> Inr a)"

definition SetVar :: "nat \<Rightarrow> 'a Array \<Rightarrow> 'a XCVMState \<Rightarrow> 'a XCVMState" where
  "SetVar v a st = st\<lparr>variables := (variables st)(v \<mapsto> a)\<rparr>"

definition FreeVar :: "nat \<Rightarrow> 'a XCVMState \<Rightarrow> fatal + 'a XCVMState" where
  "FreeVar v st =
     (case variables st v of
        None \<Rightarrow> Inl CheckFailure
      | Some _ \<Rightarrow> Inr (st\<lparr>variables := (variables st)(v := None)\<rparr>))"

definition Input :: "'a XCVMState \<Rightarrow> string \<Rightarrow> fatal + 'a Array" where
  "Input st name = (case inputs st name of None \<Rightarrow> Inl CheckFailure | Some a \<Rightarrow> Inr a)"

definition Output :: "string \<Rightarrow> 'a Array \<Rightarrow> 'a XCVMState \<Rightarrow> 'a XCVMState" where
  "Output name a st = st\<lparr>outputs := (outputs st)(name \<mapsto> a)\<rparr>"

text \<open>\<^verbatim>\<open>static_cast<bool>\<close> of a scalar: true unless it is zero.\<close>

definition to_bool :: "'a::zero \<Rightarrow> bool" where
  "to_bool v = (v \<noteq> 0)"

text \<open>\<^verbatim>\<open>JmpTrueOp::RunImpl\<close> and \<^verbatim>\<open>JmpFalseOp::RunImpl\<close>; the first argument is the
  attribute \<^verbatim>\<open>pc\<close> of the instruction, its jump target.\<close>

definition JmpTrueOp_RunImpl :: "int \<Rightarrow> 'a::zero XCVMState \<Rightarrow> 'a Array \<Rightarrow> fatal + 'a XCVMState" where
  "JmpTrueOp_RunImpl target st cond =
     (case AsScalar cond of
        Inl e \<Rightarrow> Inl e
      | Inr v \<Rightarrow> if to_bool v then Inr (set_pc (target - 1) st) else Inr st)"

definition JmpFalseOp_RunImpl :: "int \<Rightarrow> 'a::zero XCVMState \<Rightarrow> 'a Array \<Rightarrow> fatal + 'a XCVMState" where
  "JmpFalseOp_RunImpl target st cond =
     (case AsScalar cond of
        Inl e \<Rightarrow> Inl e
      | Inr v \<Rightarrow> if \<not> to_bool v then Inr (set_pc (target - 1) st) else Inr st)"

text \<open>The instructions: the kernels with an effect on the state, and any other
  kernel as a function from its input values to its output values.\<close>

datatype 'a XCVMOp =
    InOp string nat
  | OutOp string nat
  | FreeOp nat
  | JmpTrueOp nat int
  | JmpFalseOp nat int
  | KernelOp "'a Array list \<Rightarrow> fatal + 'a Array list" "nat list" "nat list"

fun GetVars :: "'a XCVMState \<Rightarrow> nat list \<Rightarrow> fatal + 'a Array list" where
  "GetVars st [] = Inr []"
| "GetVars st (v # vs) =
     (case GetVar st v of
        Inl e \<Rightarrow> Inl e
      | Inr a \<Rightarrow> (case GetVars st vs of Inl e \<Rightarrow> Inl e | Inr as \<Rightarrow> Inr (a # as)))"

fun SetVars :: "nat list \<Rightarrow> 'a Array list \<Rightarrow> 'a XCVMState \<Rightarrow> 'a XCVMState" where
  "SetVars (v # vs) (a # as) st = SetVars vs as (SetVar v a st)"
| "SetVars _ _ st = st"

fun Run_op :: "'a::zero XCVMOp \<Rightarrow> 'a XCVMState \<Rightarrow> fatal + 'a XCVMState" where
  "Run_op (InOp name out) st =
     (case Input st name of Inl e \<Rightarrow> Inl e | Inr a \<Rightarrow> Inr (SetVar out a st))"
| "Run_op (OutOp name v) st =
     (case GetVar st v of Inl e \<Rightarrow> Inl e | Inr a \<Rightarrow> Inr (Output name a st))"
| "Run_op (FreeOp v) st = FreeVar v st"
| "Run_op (JmpTrueOp c target) st =
     (case GetVar st c of Inl e \<Rightarrow> Inl e | Inr a \<Rightarrow> JmpTrueOp_RunImpl target st a)"
| "Run_op (JmpFalseOp c target) st =
     (case GetVar st c of Inl e \<Rightarrow> Inl e | Inr a \<Rightarrow> JmpFalseOp_RunImpl target st a)"
| "Run_op (KernelOp k ins outs) st =
     (case GetVars st ins of
        Inl e \<Rightarrow> Inl e
      | Inr as \<Rightarrow> (case k as of Inl e \<Rightarrow> Inl e | Inr rs \<Rightarrow> Inr (SetVars outs rs st)))"

text \<open>One round of the Dispatcher: \<open>None\<close> once the program counter is outside the
  program; otherwise the instruction at the program counter runs and the program
  counter, as the kernel left it, advances by one.\<close>

definition in_bounds :: "'b list \<Rightarrow> int \<Rightarrow> bool" where
  "in_bounds program n = (0 \<le> n \<and> n < int (length program))"

definition dispatch :: "'a::zero XCVMOp list \<Rightarrow> 'a XCVMState \<Rightarrow> (fatal + 'a XCVMState) option" where
  "dispatch program st =
     (if in_bounds program (pc st) then
        Some (case Run_op (program ! nat (pc st)) st of
                Inl e \<Rightarrow> Inl e
              | Inr st' \<Rightarrow> Inr (set_pc (pc st' + 1) st'))
      else None)"

text \<open>The indices of the instructions executed by the first \<open>n\<close> rounds.\<close>

fun executed :: "nat \<Rightarrow> 'a::zero XCVMOp list \<Rightarrow> 'a XCVMState \<Rightarrow> int list" where
  "executed 0 program st = []"
| "executed (Suc n) program st =
     (case dispatch program st of
        None \<Rightarrow> []
      | Some (Inl e) \<Rightarrow> [pc st]
      | Some (Inr st') \<Rightarrow> pc st # executed n program st')"

text \<open>The scenario of the specification: JmpTrue with target 5 at index 2 and a
  true condition; the run goes on at index 5 and skips indices 3 and 4.\<close>

definition jump_program :: "int XCVMOp list" where
  "jump_program =
     [InOp ''cond'' 0, InOp ''x'' 1, JmpTrueOp 0 5, OutOp ''skipped'' 1, FreeOp 1,
      OutOp ''y'' 1, FreeOp 0]"

definition jump_state :: "int XCVMState" where
  "jump_state =
     \<lparr>pc = 2,
      variables = [0 \<mapsto> \<lparr>dtype = kBool, shape = [], elems = [1]\<rparr>,
                   1 \<mapsto> \<lparr>dtype = kInt64, shape = [2], elems = [7, 8]\<rparr>],
      inputs = Map.empty, outputs = Map.empty\<rparr>"

section \<open>Reshape\<close>

text \<open>\<^verbatim>\<open>chainerx::Reshape\<close> belongs to the array engine.  It keeps the elements in
  row-major order and throws unless the new shape is a shape of the data model,
  with no negative size, and its total size, the product of its entries, is the
  total size of the array.  The engine has no placeholder of its own: the kernel
  below resolves \<open>-1\<close> before the call.\<close>

definition Reshape :: "'a Array \<Rightarrow> int list \<Rightarrow> fatal + 'a Array" where
  "Reshape a newshape =
     (if list_all (\<lambda>d. 0 \<le> d) newshape \<and> prod_list newshape = GetTotalSize a
      then Inr (a\<lparr>shape := newshape\<rparr>)
      else Inl EngineError)"

text \<open>The loop of \<^verbatim>\<open>ReshapeOp::RunImpl\<close> over the target shape, from index \<open>i\<close> on,
  with the local variables \<^verbatim>\<open>to_total_size\<close> and \<^verbatim>\<open>to_minus_one_index\<close>:
  \<^verbatim>\<open>int d = s[i]; CHECK_NE(0, d); if (d < 0) to_minus_one_index = i; else to_total_size *= d;\<close>\<close>

fun Reshape_scan :: "int list \<Rightarrow> nat \<Rightarrow> int \<Rightarrow> int \<Rightarrow> fatal + (int \<times> int)" where
  "Reshape_scan [] i to_total_size to_minus_one_index =
     Inr (to_total_size, to_minus_one_index)"
| "Reshape_scan (x # xs) i to_total_size to_minus_one_index =
     (let d = int32 x in
      if d = 0 then Inl CheckFailure
      else if d < 0 then Reshape_scan xs (Suc i) to_total_size (int i)
      else Reshape_scan xs (Suc i) (int32 (to_total_size * d)) to_minus_one_index)"

text \<open>The shape that \<^verbatim>\<open>ReshapeOp::RunImpl\<close> hands to the engine, from the total size
  of the data and the target shape.  The operators \<^verbatim>\<open>%\<close> and \<^verbatim>\<open>/\<close> of C++ truncate
  towards zero; a zero divisor traps.\<close>

definition ReshapeOp_shape :: "int \<Rightarrow> int list \<Rightarrow> fatal + int list" where
  "ReshapeOp_shape total_size s =
     (let from_total_size = int32 total_size in
      case Reshape_scan s 0 1 (- 1) of
        Inl e \<Rightarrow> Inl e
      | Inr (to_total_size, to_minus_one_index) \<Rightarrow>
          if from_total_size \<noteq> to_total_size then
            if \<not> from_total_size > to_total_size then Inl CheckFailure
            else if to_total_size = 0 then Inl ArithmeticFault
            else if 0 \<noteq> from_total_size smod to_total_size then Inl CheckFailure
            else if \<not> 0 \<le> to_minus_one_index then Inl CheckFailure
            else Inr (s[nat to_minus_one_index := from_total_size sdiv to_total_size])
          else Inr s)"

definition ReshapeOp_RunImpl :: "'a Array \<Rightarrow> int list \<Rightarrow> fatal + 'a Array" where
  "ReshapeOp_RunImpl data s =
     (case ReshapeOp_shape (GetTotalSize data) s of
        Inl e \<Rightarrow> Inl e
      | Inr s' \<Rightarrow> Reshape data s')"

text \<open>The product of the positive entries of a target shape.\<close>

definition positive_product :: "int list \<Rightarrow> int" where
  "positive_product xs = prod_list (filter (\<lambda>x. 0 < x) xs)"

section \<open>Multi-dimensional indexing\<close>

text \<open>The elements of an array are kept in row-major order: \<open>ravel\<close> turns a
  multi-index into the position of the element, \<open>unravel\<close> is its inverse, and
  \<open>valid_index\<close> says that a multi-index lies within the dimensions.\<close>

definition dims :: "'a Array \<Rightarrow> nat list" where
  "dims a = map nat (shape a)"

definition well_formed :: "'a Array \<Rightarrow> bool" where
  "well_formed a = (list_all (\<lambda>d. 0 \<le> d) (shape a) \<and> length (elems a) = prod_list (dims a))"

fun ravel :: "nat list \<Rightarrow> nat list \<Rightarrow> nat" where
  "ravel (d # ds) (i # is) = i * prod_list ds + ravel ds is"
| "ravel _ _ = 0"

fun unravel :: "nat list \<Rightarrow> nat \<Rightarrow> nat list" where
  "unravel [] k = []"
| "unravel (d # ds) k = (k div prod_list ds) # unravel ds (k mod prod_list ds)"

fun valid_index :: "nat list \<Rightarrow> nat list \<Rightarrow> bool" where
  "valid_index [] [] = True"
| "valid_index (d # ds) (i # is) = (i < d \<and> valid_index ds is)"
| "valid_index _ _ = False"

definition element :: "'a Array \<Rightarrow> nat list \<Rightarrow> 'a" where
  "element a idx = elems a ! ravel (dims a) idx"

section \<open>Pad\<close>

text \<open>\<^verbatim>\<open>chainerx::Full\<close> allocates an array of a shape, every element the fill value.\<close>

definition Full :: "int list \<Rightarrow> 'a \<Rightarrow> Dtype \<Rightarrow> fatal + 'a Array" where
  "Full s v dt =
     (if list_all (\<lambda>d. 0 \<le> d) s
      then Inr \<lparr>dtype = dt, shape = s, elems = replicate (prod_list (map nat s)) v\<rparr>
      else Inl EngineError)"

text \<open>\<^verbatim>\<open>chainerx::Slice(start, stop)\<close> on an axis of size \<open>dim\<close>, with the engine's
  NumPy conventions: a negative bound counts from the end, bounds are clipped to
  the axis.  The result is the first position and the number of positions.\<close>

definition Slice :: "int \<Rightarrow> int \<Rightarrow> int \<Rightarrow> nat \<times> nat" where
  "Slice start stop dim =
     (let b = (if start < 0 then max 0 (start + dim) else min start dim);
          e = (if stop < 0 then max 0 (stop + dim) else min stop dim)
      in (nat b, nat (max 0 (e - b))))"

text \<open>\<^verbatim>\<open>result.device().Copy(data, result.At(indices))\<close>: \<^verbatim>\<open>At\<close> yields a view
  of \<open>dst\<close>, one slice per axis, and \<^verbatim>\<open>Copy\<close> writes the source through it; the
  view and the source must have one shape.  The model returns the updated \<open>dst\<close>.\<close>

fun in_view :: "(nat \<times> nat) list \<Rightarrow> nat list \<Rightarrow> bool" where
  "in_view ((b, n) # rs) (i # is) = (b \<le> i \<and> i < b + n \<and> in_view rs is)"
| "in_view _ _ = True"

definition Copy_At :: "'a Array \<Rightarrow> 'a Array \<Rightarrow> (int \<times> int) list \<Rightarrow> fatal + 'a Array" where
  "Copy_At src dst indices =
     (if length indices \<noteq> length (shape dst) then Inl EngineError
      else
        let view = map2 (\<lambda>(start, stop) d. Slice start stop d) indices (shape dst) in
        if map (\<lambda>(b, n). int n) view \<noteq> shape src then Inl EngineError
        else Inr (dst\<lparr>elems :=
               map (\<lambda>k. let idx = unravel (dims dst) k in
                          if in_view view idx
                          then elems src ! ravel (dims src) (map2 (\<lambda>i (b, n). i - b) idx view)
                          else elems dst ! k)
                   [0..<length (elems dst)]\<rparr>))"

text \<open>The loop of \<^verbatim>\<open>PadOp::RunImpl\<close> from axis \<open>i\<close> on:
  \<^verbatim>\<open>indices.push_back(Slice(pads[i], pads[i] + shape[i])); shape[i] += pads[i] + pads[i + shape.size()];\<close>\<close>

fun Pad_loop :: "int list \<Rightarrow> nat \<Rightarrow> nat \<Rightarrow> int list \<Rightarrow> (int \<times> int) list \<Rightarrow> int list \<times> (int \<times> int) list" where
  "Pad_loop pads n i [] indices = ([], indices)"
| "Pad_loop pads n i (d # ds) indices =
     (let (ds', indices') = Pad_loop pads n (Suc i) ds (indices @ [(pads ! i, pads ! i + d)])
      in ((d + (pads ! i + pads ! (i + n))) # ds', indices'))"

definition PadOp_RunImpl :: "int list \<Rightarrow> 'a \<Rightarrow> 'a Array \<Rightarrow> fatal + 'a Array" where
  "PadOp_RunImpl pads v data =
     (if int (length (shape data)) * 2 \<noteq> int (length pads) then Inl CheckFailure
      else
        let (s, indices) = Pad_loop pads (length (shape data)) 0 (shape data) [] in
        case Full s v (dtype data) of
          Inl e \<Rightarrow> Inl e
        | Inr result \<Rightarrow> Copy_At data result indices)"

section \<open>Concat and Split\<close>

text \<open>Along an axis an array falls into \<open>outer_size\<close> blocks, one for each index of
  the axes before it; a position of the axis covers \<open>inner_size\<close> elements.\<close>

definition outer_size :: "nat list \<Rightarrow> nat \<Rightarrow> nat" where
  "outer_size ds axis = prod_list (take axis ds)"

definition inner_size :: "nat list \<Rightarrow> nat \<Rightarrow> nat" where
  "inner_size ds axis = prod_list (drop (Suc axis) ds)"

text \<open>The block of an array with \<open>d\<close> positions on the axis that belongs to the outer
  index \<open>k\<close>: \<open>d * inner\<close> consecutive elements.\<close>

definition axis_block :: "nat \<Rightarrow> nat \<Rightarrow> nat \<Rightarrow> 'a list \<Rightarrow> 'a list" where
  "axis_block inner d k xs = take (d * inner) (drop (k * d * inner) xs)"

text \<open>The view \<^verbatim>\<open>input.At(indices)\<close> with the slice from \<open>start\<close> of \<open>len\<close>
  positions on one axis and full slices on the others.\<close>

definition slice_axis :: "nat \<Rightarrow> nat \<Rightarrow> nat \<Rightarrow> 'a Array \<Rightarrow> 'a Array" where
  "slice_axis axis start len a =
     a\<lparr>shape := (shape a)[axis := int len],
       elems := concat (map (\<lambda>k. take (len * inner_size (dims a) axis)
                                  (drop ((k * (dims a ! axis) + start) * inner_size (dims a) axis) (elems a)))
                         [0..<outer_size (dims a) axis])\<rparr>"

text \<open>
  Modelled from the spec: the helpers \<^verbatim>\<open>Split(input, lens, axis)\<close> and
  \<^verbatim>\<open>Concat(inputs, axis)\<close> that the two kernels call are declared in
  \<^verbatim>\<open>runtime/xchainer.h\<close>, which is not among the sources.  Following the
  specification, \<open>Split\<close> cuts the axis into consecutive segments of the given
  lengths and accepts lengths that are non-negative and sum up to the size of the
  axis; \<open>Concat\<close> joins arrays of one dtype that agree on every other axis.
\<close>

fun Split_from :: "'a Array \<Rightarrow> nat \<Rightarrow> nat \<Rightarrow> nat list \<Rightarrow> 'a Array list" where
  "Split_from a axis start [] = []"
| "Split_from a axis start (l # ls) = slice_axis axis start l a # Split_from a axis (start + l) ls"

definition Split :: "'a Array \<Rightarrow> int list \<Rightarrow> int \<Rightarrow> fatal + 'a Array list" where
  "Split input lens axis =
     (if \<not> (0 \<le> axis \<and> axis < int (length (shape input))) then Inl CheckFailure
      else if \<not> list_all (\<lambda>l. 0 \<le> l) lens \<or> sum_list lens \<noteq> shape input ! nat axis
        then Inl CheckFailure
      else Inr (Split_from input (nat axis) 0 (map nat lens)))"

definition Concat :: "'a Array list \<Rightarrow> int \<Rightarrow> fatal + 'a Array" where
  "Concat arrays axis =
     (case arrays of
        [] \<Rightarrow> Inl CheckFailure
      | a0 # _ \<Rightarrow>
          if \<not> (0 \<le> axis \<and> axis < int (length (shape a0))) then Inl CheckFailure
          else if \<not> list_all (\<lambda>a. dtype a = dtype a0 \<and> length (shape a) = length (shape a0)
                      \<and> (shape a)[nat axis := 0] = (shape a0)[nat axis := 0]) arrays
            then Inl CheckFailure
          else Inr \<lparr>dtype = dtype a0,
                    shape = (shape a0)[nat axis := sum_list (map (\<lambda>a. shape a ! nat axis) arrays)],
                    elems = concat (map (\<lambda>k. concat (map (\<lambda>a.
                                axis_block (inner_size (dims a0) (nat axis)) (dims a ! nat axis) k (elems a))
                              arrays))
                            [0..<outer_size (dims a0) (nat axis)])\<rparr>)"

text \<open>\<^verbatim>\<open>ConcatOp::RunImpl\<close> and \<^verbatim>\<open>SplitOp::RunImpl\<close>.  The attributes of Split are
  \<^verbatim>\<open>split\<close> and \<^verbatim>\<open>axis\<close>; \<^verbatim>\<open>outputs.size()\<close> is the number of outputs of the
  instruction.  Without \<^verbatim>\<open>split\<close> the axis is divided evenly:
  \<^verbatim>\<open>int num_splits = outputs.size(); CHECK_EQ(0, dim % num_splits);
  lens = std::vector<int64_t>(num_splits, dim / num_splits);\<close>
  Reading \<^verbatim>\<open>input.shape()[axis]\<close> outside the shape is an error of the model.\<close>

definition ConcatOp_RunImpl :: "int \<Rightarrow> 'a Array list \<Rightarrow> fatal + 'a Array" where
  "ConcatOp_RunImpl axis arrays = Concat arrays axis"

definition SplitOp_RunImpl :: "int list \<Rightarrow> int \<Rightarrow> nat \<Rightarrow> 'a Array \<Rightarrow> fatal + 'a Array list" where
  "SplitOp_RunImpl split axis outputs_size input =
     (if split = [] then
        if \<not> (0 \<le> axis \<and> axis < int (length (shape input))) then Inl EngineError
        else
          let dim = shape input ! nat axis;
              num_splits = int32 (int outputs_size)
          in if num_splits = 0 then Inl ArithmeticFault
             else if 0 \<noteq> dim smod num_splits then Inl CheckFailure
             else if num_splits < 0 then Inl EngineError
             else Split input (replicate (nat num_splits) (dim sdiv num_splits)) axis
      else Split input split axis)"

section \<open>Unsqueeze\<close>

text \<open>\<^verbatim>\<open>UnsqueezeOp::RunImpl\<close>: \<^verbatim>\<open>for (int d : axes) { CHECK_LE(d, shape.size());
  shape.insert(shape.begin() + d, 1); }\<close> and then \<^verbatim>\<open>chainerx::Reshape(data, shape)\<close>.
  The check compares the \<^verbatim>\<open>int\<close> with a \<^verbatim>\<open>size_t\<close>, so the \<^verbatim>\<open>int\<close> is converted to
  the unsigned 64-bit type first.  The capacity of the engine's shape vector is not
  modelled.\<close>

definition to_size_t :: "int \<Rightarrow> int" where
  "to_size_t k = k mod 2 ^ 64"

fun Unsqueeze_loop :: "int list \<Rightarrow> int list \<Rightarrow> fatal + int list" where
  "Unsqueeze_loop [] shp = Inr shp"
| "Unsqueeze_loop (a # axes) shp =
     (let d = int32 a in
      if \<not> to_size_t d \<le> int (length shp) then Inl CheckFailure
      else Unsqueeze_loop axes (take (nat d) shp @ 1 # drop (nat d) shp))"

definition UnsqueezeOp_RunImpl :: "int list \<Rightarrow> 'a Array \<Rightarrow> fatal + 'a Array" where
  "UnsqueezeOp_RunImpl axes data =
     (case Unsqueeze_loop axes (shape data) of
        Inl e \<Rightarrow> Inl e
      | Inr s \<Rightarrow> Reshape data s)"

section \<open>Max\<close>

text \<open>\<^verbatim>\<open>a.At({i})\<close> on an array of one axis: the 0-d array of the element at an
  index within the axis.\<close>

definition At1 :: "'a Array \<Rightarrow> int \<Rightarrow> fatal + 'a Array" where
  "At1 a i =
     (case shape a of
        [n] \<Rightarrow>
          if 0 \<le> i \<and> i < n \<and> nat i < length (elems a)
          then Inr \<lparr>dtype = dtype a, shape = [], elems = [elems a ! nat i]\<rparr>
          else Inl EngineError
      | _ \<Rightarrow> Inl EngineError)"

text \<open>Running a fallible step over a list stops at the first failure.\<close>

fun collect :: "('b \<Rightarrow> fatal + 'c) \<Rightarrow> 'b list \<Rightarrow> fatal + 'c list" where
  "collect f [] = Inr []"
| "collect f (x # xs) =
     (case f x of
        Inl e \<Rightarrow> Inl e
      | Inr y \<Rightarrow> (case collect f xs of Inl e \<Rightarrow> Inl e | Inr ys \<Rightarrow> Inr (y # ys)))"

text \<open>The body of the loop in the slow path of \<^verbatim>\<open>ElementwiseMax\<close>:
  \<^verbatim>\<open>m = chainerx::Maximum(chainerx::AsScalar(av.At({i})), bv.At({i})); maxes.push_back(chainerx::Reshape(m, {1}));\<close>\<close>

definition Max_element :: "'a::linorder Array \<Rightarrow> 'a Array \<Rightarrow> int \<Rightarrow> fatal + 'a Array" where
  "Max_element av bv i =
     (case At1 av i of
        Inl e \<Rightarrow> Inl e
      | Inr ai \<Rightarrow>
          (case AsScalar ai of
             Inl e \<Rightarrow> Inl e
           | Inr s \<Rightarrow>
               (case At1 bv i of
                  Inl e \<Rightarrow> Inl e
                | Inr bi \<Rightarrow> Reshape (MaximumS s bi) [1])))"

text \<open>The slow path: both operands flattened, the loop over the \<open>an\<close> positions
  (the \<^verbatim>\<open>int\<close> counter is taken not to overflow), \<^verbatim>\<open>Concat(maxes, 0)\<close> and the
  reshape to the shape of \<open>a\<close>.\<close>

definition slow_Max :: "'a::linorder Array \<Rightarrow> 'a Array \<Rightarrow> fatal + 'a Array" where
  "slow_Max a b =
     (let an = GetTotalSize a in
      case Reshape a [an] of
        Inl e \<Rightarrow> Inl e
      | Inr av \<Rightarrow>
          (case Reshape b [an] of
             Inl e \<Rightarrow> Inl e
           | Inr bv \<Rightarrow>
               (case collect (Max_element av bv) (map int [0..<nat an]) of
                  Inl e \<Rightarrow> Inl e
                | Inr maxes \<Rightarrow>
                    (case Concat maxes 0 of
                       Inl e \<Rightarrow> Inl e
                     | Inr result \<Rightarrow> Reshape result (shape a)))))"

text \<open>\<^verbatim>\<open>ElementwiseMax\<close>.  The first component of the result lists the warning
  statements that the call reaches (\<^verbatim>\<open>WARN_ONCE("Slow element-wise Max")\<close> stands
  right before the slow path; the macro prints the message only the first time in
  a process, the list has an entry each time the statement is reached), the second
  component is the outcome.\<close>

definition ElementwiseMax :: "'a::linorder Array \<Rightarrow> 'a Array \<Rightarrow> string list \<times> (fatal + 'a Array)" where
  "ElementwiseMax a b =
     (if dtype a \<noteq> dtype b then ([], Inl CheckFailure)
      else
        let an = GetTotalSize a; bn = GetTotalSize b in
        if an = 1 then
          ([], case AsScalar a of Inl e \<Rightarrow> Inl e | Inr s \<Rightarrow> Inr (MaximumS s b))
        else if bn = 1 then
          ([], case AsScalar b of Inl e \<Rightarrow> Inl e | Inr s \<Rightarrow> Inr (Maximum a s))
        else if an \<noteq> bn then ([], Inl CheckFailure)
        else ([''Slow element-wise Max''], slow_Max a b))"

text \<open>\<^verbatim>\<open>MaxOp::RunImpl\<close>: \<^verbatim>\<open>CHECK_LT(0, inputs.size())\<close>, then the fold of
  \<^verbatim>\<open>ElementwiseMax\<close> over the inputs from the left, starting with the first.\<close>

fun Max_fold :: "'a::linorder Array \<Rightarrow> 'a Array list \<Rightarrow> string list \<times> (fatal + 'a Array)" where
  "Max_fold result [] = ([], Inr result)"
| "Max_fold result (x # xs) =
     (case ElementwiseMax result x of
        (w, Inl e) \<Rightarrow> (w, Inl e)
      | (w, Inr result') \<Rightarrow> (case Max_fold result' xs of (w', r) \<Rightarrow> (w @ w', r)))"

definition MaxOp_RunImpl :: "'a::linorder Array list \<Rightarrow> string list \<times> (fatal + 'a Array)" where
  "MaxOp_RunImpl arrays =
     (case arrays of
        [] \<Rightarrow> ([], Inl CheckFailure)
      | x # xs \<Rightarrow> Max_fold x xs)"

section \<open>Gemm\<close>

text \<open>The operations of the array engine that \<^verbatim>\<open>GemmOp::RunImpl\<close> calls, with their
  NumPy conventions.  \<^verbatim>\<open>chainerx::Transpose(a)\<close> without axes reverses the axes.\<close>

definition Transpose :: "'a Array \<Rightarrow> 'a Array" where
  "Transpose a =
     a\<lparr>shape := rev (shape a),
       elems := map (\<lambda>k. elems a ! ravel (dims a) (rev (unravel (rev (dims a)) k)))
                  [0..<length (elems a)]\<rparr>"

text \<open>Broadcasting of two shapes, aligned at the last axis: two sizes go together
  when they are equal or one of them is 1.\<close>

fun broadcast_rev :: "int list \<Rightarrow> int list \<Rightarrow> int list option" where
  "broadcast_rev [] ys = Some ys"
| "broadcast_rev xs [] = Some xs"
| "broadcast_rev (x # xs) (y # ys) =
     (if x = y \<or> y = 1 then map_option ((#) x) (broadcast_rev xs ys)
      else if x = 1 then map_option ((#) y) (broadcast_rev xs ys)
      else None)"

definition broadcast_shape :: "int list \<Rightarrow> int list \<Rightarrow> int list option" where
  "broadcast_shape s t = map_option rev (broadcast_rev (rev s) (rev t))"

text \<open>The multi-index of an operand that belongs to a multi-index of the
  broadcast result.\<close>

definition broadcast_index :: "nat list \<Rightarrow> nat list \<Rightarrow> nat list" where
  "broadcast_index ds idx =
     map2 (\<lambda>d i. if d = 1 then 0 else i) ds (drop (length idx - length ds) idx)"

definition Broadcast2 :: "('a \<Rightarrow> 'a \<Rightarrow> 'a) \<Rightarrow> 'a Array \<Rightarrow> 'a Array \<Rightarrow> fatal + 'a Array" where
  "Broadcast2 f a b =
     (if dtype a \<noteq> dtype b then Inl EngineError
      else
        case broadcast_shape (shape a) (shape b) of
          None \<Rightarrow> Inl EngineError
        | Some s \<Rightarrow>
            Inr \<lparr>dtype = dtype a, shape = s,
                 elems = map (\<lambda>k. let idx = unravel (map nat s) k in
                                   f (elems a ! ravel (dims a) (broadcast_index (dims a) idx))
                                     (elems b ! ravel (dims b) (broadcast_index (dims b) idx)))
                             [0..<prod_list (map nat s)]\<rparr>)"

text \<open>The product of an array with a scalar (\<^verbatim>\<open>r *= alpha\<close>, \<^verbatim>\<open>xc * beta\<close>).\<close>

definition MultiplyAS :: "'a::times Array \<Rightarrow> 'a \<Rightarrow> 'a Array" where
  "MultiplyAS a s = a\<lparr>elems := map (\<lambda>v. v * s) (elems a)\<rparr>"

text \<open>\<^verbatim>\<open>chainerx::Dot\<close>: the product with a 0-d operand is elementwise; otherwise
  the last axis of \<open>a\<close> is contracted with the first axis of \<open>b\<close>, which must have
  the same size, and \<open>b\<close> has at most two axes.\<close>

definition Dot :: "'a::comm_semiring_0 Array \<Rightarrow> 'a Array \<Rightarrow> fatal + 'a Array" where
  "Dot a b =
     (if dtype a \<noteq> dtype b then Inl EngineError
      else if shape a = [] \<or> shape b = [] then Broadcast2 (*) a b
      else if length (shape b) > 2 then Inl EngineError
      else if last (shape a) \<noteq> hd (shape b) then Inl EngineError
      else
        let k = nat (last (shape a));
            m = prod_list (butlast (dims a));
            n = prod_list (tl (dims b))
        in Inr \<lparr>dtype = dtype a, shape = butlast (shape a) @ tl (shape b),
                elems = concat (map (\<lambda>i. map (\<lambda>j.
                            (\<Sum>l\<leftarrow>[0..<k]. elems a ! (i * k + l) * elems b ! (l * n + j)))
                          [0..<n]) [0..<m])\<rparr>)"

text \<open>The flattening loop of \<^verbatim>\<open>GemmOp::RunImpl\<close> for an operand of more than two
  axes: \<^verbatim>\<open>int last_dim = 1; for (i = 1; ...) last_dim *= xa.shape()[i];\<close> and then
  \<^verbatim>\<open>chainerx::Reshape(xa, chainerx::Shape{xa.shape()[0], last_dim})\<close>.\<close>

fun Gemm_last_dim :: "int \<Rightarrow> int list \<Rightarrow> int" where
  "Gemm_last_dim last_dim [] = last_dim"
| "Gemm_last_dim last_dim (d # ds) = Gemm_last_dim (int32 (last_dim * d)) ds"

definition Gemm_flatten :: "'a Array \<Rightarrow> fatal + 'a Array" where
  "Gemm_flatten xa =
     (if length (shape xa) > 2
      then Reshape xa [shape xa ! 0, Gemm_last_dim 1 (tl (shape xa))]
      else Inr xa)"

text \<open>\<^verbatim>\<open>GemmOp::RunImpl\<close> with the attributes \<^verbatim>\<open>alpha\<close>, \<^verbatim>\<open>beta\<close>, \<^verbatim>\<open>trans_a\<close> and
  \<^verbatim>\<open>trans_b\<close>.\<close>

definition GemmOp_RunImpl ::
  "'a::comm_semiring_1 \<Rightarrow> 'a \<Rightarrow> bool \<Rightarrow> bool \<Rightarrow> 'a Array \<Rightarrow> 'a Array \<Rightarrow> 'a Array \<Rightarrow> fatal + 'a Array" where
  "GemmOp_RunImpl alpha beta trans_a trans_b a b c =
     (let xa = (if trans_a then Transpose a else a);
          xb = (if trans_b then Transpose b else b)
      in case Gemm_flatten xa of
           Inl e \<Rightarrow> Inl e
         | Inr xa \<Rightarrow>
             (case Gemm_flatten xb of
                Inl e \<Rightarrow> Inl e
              | Inr xb \<Rightarrow>
                  (case Dot xa xb of
                     Inl e \<Rightarrow> Inl e
                   | Inr r \<Rightarrow>
                       let r = (if alpha \<noteq> 1 then MultiplyAS r alpha else r) in
                       if beta = 0 then Inr r
                       else
                         let xc = (if beta \<noteq> 1 then MultiplyAS c beta else c)
                         in Broadcast2 (+) r xc)))"

text \<open>The flattening as the specification words it: for an operand of more than
  two axes, all axes after the first become one.\<close>

definition flatten_trailing :: "'a Array \<Rightarrow> 'a Array" where
  "flatten_trailing a =
     (if length (shape a) > 2 then a\<lparr>shape := [hd (shape a), prod_list (tl (shape a))]\<rparr> else a)"

section \<open>Properties\<close>

subsection \<open>Clip and the jump kernels\<close>

text \<open>
  C8.  For scalar attributes \<open>min \<le> max\<close> the formula of the Clip kernel,
  \<open>- max (- max x min) (- max_)\<close>, yields at every element position the clamp
  of the element to the interval from \<open>min\<close> to \<open>max\<close>, that is
  \<open>min (max x\<^sub>i min) max\<close>; shape and dtype are those of the input.
\<close>

theorem ClipOp_clamps:
  assumes "mn \<le> mx" and "i < length (elems x)"
  shows "elems (ClipOp_RunImpl mn mx x) ! i = min (max (elems x ! i) mn) mx
       \<and> mn \<le> elems (ClipOp_RunImpl mn mx x) ! i
       \<and> elems (ClipOp_RunImpl mn mx x) ! i \<le> mx
       \<and> length (elems (ClipOp_RunImpl mn mx x)) = length (elems x)
       \<and> shape (ClipOp_RunImpl mn mx x) = shape x
       \<and> dtype (ClipOp_RunImpl mn mx x) = dtype x"
proof -
  have neg_max: "- max (- a) (- b) = min a b" for a b :: 'a
    by (auto simp: max_def min_def)
  have "elems (ClipOp_RunImpl mn mx x) = map (\<lambda>v. min (max v mn) mx) (elems x)"
    by (simp add: ClipOp_RunImpl_def Negative_def Maximum_def neg_max o_def)
  moreover have "shape (ClipOp_RunImpl mn mx x) = shape x"
    and "dtype (ClipOp_RunImpl mn mx x) = dtype x"
    by (simp_all add: ClipOp_RunImpl_def Negative_def Maximum_def)
  ultimately show ?thesis
    using assms by (auto simp: min_def max_def)
qed

theorem ClipOp_clamps_witness:
  "(0::int) \<le> 10 \<and> (2::nat) < length (elems \<lparr>dtype = kInt64, shape = [3], elems = [-5, 3, 15::int]\<rparr>)
   \<and> elems (ClipOp_RunImpl 0 10 \<lparr>dtype = kInt64, shape = [3], elems = [-5, 3, 15::int]\<rparr>) ! 2 = 10"
  using ClipOp_clamps [of "0::int" 10 2 "\<lparr>dtype = kInt64, shape = [3], elems = [-5, 3, 15::int]\<rparr>"]
  by simp

lemma take2_executed:
  assumes "dispatch program st = Some (Inr st')" and "in_bounds program (pc st')"
  shows "take 2 (executed (Suc (Suc n)) program st) = [pc st, pc st']"
proof -
  from assms(2) obtain r where r: "dispatch program st' = Some r"
    by (auto simp: dispatch_def)
  show ?thesis
    using assms(1) r by (cases r) simp_all
qed

text \<open>
  C1.  When the instruction at the program counter \<open>i\<close> is JmpTrue (JmpFalse) with
  target \<open>t\<close> and its 0-d condition is true (false), the kernel sets the program
  counter to \<open>t - 1\<close>, the round of the Dispatcher ends with the program counter
  at \<open>t\<close>, and the next instruction executed is the one at index \<open>t\<close>, none of
  those in between.  When the condition does not fire the kernel leaves the state
  as it is and the next instruction executed is the one at \<open>i + 1\<close>.
\<close>

theorem Jmp_sets_pc:
  assumes "in_bounds program (pc st)"
    and "variables st c = Some cond"
    and "shape cond = []" and "elems cond = [v]"
  shows "(program ! nat (pc st) = JmpTrueOp c t \<and> to_bool v \<or>
          program ! nat (pc st) = JmpFalseOp c t \<and> \<not> to_bool v \<longrightarrow>
            Run_op (program ! nat (pc st)) st = Inr (set_pc (t - 1) st)
          \<and> dispatch program st = Some (Inr (set_pc t st))
          \<and> (in_bounds program t \<longrightarrow>
               take 2 (executed (Suc (Suc n)) program st) = [pc st, t]))
       \<and> (program ! nat (pc st) = JmpTrueOp c t \<and> \<not> to_bool v \<or>
          program ! nat (pc st) = JmpFalseOp c t \<and> to_bool v \<longrightarrow>
            Run_op (program ! nat (pc st)) st = Inr st
          \<and> dispatch program st = Some (Inr (set_pc (pc st + 1) st))
          \<and> (in_bounds program (pc st + 1) \<longrightarrow>
               take 2 (executed (Suc (Suc n)) program st) = [pc st, pc st + 1]))"
proof -
  have sc: "AsScalar cond = Inr v"
    using assms(3,4) by (simp add: AsScalar_def GetTotalSize_def)
  have gv: "GetVar st c = Inr cond"
    using assms(2) by (simp add: GetVar_def)
  have fire: "dispatch program st = Some (Inr (set_pc t st))
      \<and> Run_op (program ! nat (pc st)) st = Inr (set_pc (t - 1) st)"
    if "program ! nat (pc st) = JmpTrueOp c t \<and> to_bool v \<or>
        program ! nat (pc st) = JmpFalseOp c t \<and> \<not> to_bool v"
    using that assms(1) sc gv
    by (auto simp: dispatch_def JmpTrueOp_RunImpl_def JmpFalseOp_RunImpl_def set_pc_def)
  have fall: "dispatch program st = Some (Inr (set_pc (pc st + 1) st))
      \<and> Run_op (program ! nat (pc st)) st = Inr st"
    if "program ! nat (pc st) = JmpTrueOp c t \<and> \<not> to_bool v \<or>
        program ! nat (pc st) = JmpFalseOp c t \<and> to_bool v"
    using that assms(1) sc gv
    by (auto simp: dispatch_def JmpTrueOp_RunImpl_def JmpFalseOp_RunImpl_def)
  have t1: "take 2 (executed (Suc (Suc n)) program st) = [pc st, t]"
    if "dispatch program st = Some (Inr (set_pc t st))" and "in_bounds program t"
    using take2_executed [OF that(1)] that(2) by (simp add: set_pc_def)
  have t2: "take 2 (executed (Suc (Suc n)) program st) = [pc st, pc st + 1]"
    if "dispatch program st = Some (Inr (set_pc (pc st + 1) st))"
      and "in_bounds program (pc st + 1)"
    using take2_executed [OF that(1)] that(2) by (simp add: set_pc_def)
  show ?thesis
    using fire fall t1 t2 by blast
qed

theorem Jmp_sets_pc_witness:
  "in_bounds jump_program (pc jump_state)
   \<and> variables jump_state 0 = Some \<lparr>dtype = kBool, shape = [], elems = [1]\<rparr>
   \<and> jump_program ! nat (pc jump_state) = JmpTrueOp 0 5 \<and> to_bool (1::int)
   \<and> in_bounds jump_program 5
   \<and> dispatch jump_program jump_state = Some (Inr (set_pc 5 jump_state))
   \<and> take 2 (executed (Suc (Suc 0)) jump_program jump_state) = [2, 5]"
proof -
  have a: "in_bounds jump_program (pc jump_state)"
    by (simp add: in_bounds_def jump_program_def jump_state_def)
  have b: "variables jump_state 0 = Some \<lparr>dtype = kBool, shape = [], elems = [1]\<rparr>"
    by (simp add: jump_state_def)
  have c: "jump_program ! nat (pc jump_state) = JmpTrueOp 0 5"
    by (simp add: jump_program_def jump_state_def)
  have d: "in_bounds jump_program 5"
    by (simp add: in_bounds_def jump_program_def)
  have e: "to_bool (1::int)"
    by (simp add: to_bool_def)
  have p: "pc jump_state = 2"
    by (simp add: jump_state_def)
  show ?thesis
    using Jmp_sets_pc [OF a b, of 1 5 0] a b c d e p
    by (simp del: executed.simps)
qed

subsection \<open>Reshape\<close>

lemma int32_id: "- (2 ^ 31) \<le> k \<Longrightarrow> k < 2 ^ 31 \<Longrightarrow> int32 k = k"
  by (simp add: int32_def signed_take_bit_int_eq_self)

lemma int32_0 [simp]: "int32 0 = 0"
  by (simp add: int32_def)

lemma Reshape_scan_zero: "0 \<in> set xs \<Longrightarrow> Reshape_scan xs i t m = Inl CheckFailure"
  by (induction xs arbitrary: i t m) (auto simp: Let_def)

lemma Reshape_scan_index:
  "Reshape_scan xs k t m = Inr (t', m') \<Longrightarrow> m' = m \<or> (int k \<le> m' \<and> m' < int (k + length xs))"
proof (induction xs arbitrary: k t m)
  case Nil
  then show ?case by simp
next
  case (Cons x xs)
  show ?case
  proof (cases "int32 x < 0")
    case True
    with Cons.prems have "Reshape_scan xs (Suc k) t (int k) = Inr (t', m')"
      by (simp add: Let_def split: if_splits)
    from Cons.IH [OF this] show ?thesis by auto
  next
    case False
    with Cons.prems have "Reshape_scan xs (Suc k) (int32 (t * int32 x)) m = Inr (t', m')"
      by (simp add: Let_def split: if_splits)
    from Cons.IH [OF this] show ?thesis by auto
  qed
qed

lemma Reshape_scan_last_negative:
  "Reshape_scan xs k t m = Inr (t', m') \<Longrightarrow> j < length xs \<Longrightarrow> int32 (xs ! j) < 0
     \<Longrightarrow> int (k + j) \<le> m'"
proof (induction xs arbitrary: k t m j)
  case Nil
  then show ?case by simp
next
  case (Cons x xs)
  show ?case
  proof (cases j)
    case 0
    with Cons.prems have "Reshape_scan xs (Suc k) t (int k) = Inr (t', m')"
      by (simp add: Let_def split: if_splits)
    from Reshape_scan_index [OF this] 0 show ?thesis by auto
  next
    case (Suc j')
    from Cons.prems(1) obtain t0 m0 where "Reshape_scan xs (Suc k) t0 m0 = Inr (t', m')"
      by (auto simp: Let_def split: if_splits)
    from Cons.IH [OF this, of j'] Cons.prems(2,3) Suc show ?thesis by simp
  qed
qed

lemma positive_product_ge1: "1 \<le> positive_product xs"
proof (induction xs)
  case Nil
  then show ?case by (simp add: positive_product_def)
next
  case (Cons x xs)
  then show ?case
    using mult_mono [of 1 x 1 "positive_product xs"]
    by (auto simp: positive_product_def)
qed

lemma Reshape_scan_total:
  "Reshape_scan xs k t m = Inr (t', m') \<Longrightarrow> 1 \<le> t \<Longrightarrow> t * positive_product xs < 2 ^ 31
     \<Longrightarrow> \<forall>x\<in>set xs. - (2 ^ 31) \<le> x \<and> x < 2 ^ 31
     \<Longrightarrow> t' = t * positive_product xs"
proof (induction xs arbitrary: k t m)
  case Nil
  then show ?case by (simp add: positive_product_def)
next
  case (Cons x xs)
  have ix: "int32 x = x"
    using Cons.prems(4) by (simp add: int32_id)
  show ?case
  proof (cases "x < 0")
    case True
    with Cons.prems(1) ix have "Reshape_scan xs (Suc k) t (int k) = Inr (t', m')"
      by (simp add: Let_def split: if_splits)
    moreover have "positive_product (x # xs) = positive_product xs"
      using True by (simp add: positive_product_def)
    ultimately show ?thesis
      using Cons.IH [of "Suc k" t "int k"] Cons.prems(2,3,4) by simp
  next
    case False
    with Cons.prems(1) ix have xpos: "0 < x"
      by (auto simp: Let_def split: if_splits)
    have pp: "positive_product (x # xs) = x * positive_product xs"
      using xpos by (simp add: positive_product_def)
    have "t * x * 1 \<le> t * x * positive_product xs"
      using positive_product_ge1 [of xs] xpos Cons.prems(2)
      by (intro mult_left_mono) auto
    then have tx: "t * x < 2 ^ 31"
      using Cons.prems(3) pp by (simp add: mult.assoc)
    have tx1: "1 \<le> t * x"
      using xpos Cons.prems(2) mult_mono [of 1 t 1 x] by simp
    have "int32 (t * x) = t * x"
      using tx tx1 by (simp add: int32_id)
    with Cons.prems(1) ix xpos have "Reshape_scan xs (Suc k) (t * x) m = Inr (t', m')"
      by (simp add: Let_def split: if_splits)
    from Cons.IH [OF this tx1] Cons.prems(3,4) pp show ?thesis
      by (simp add: mult.assoc)
  qed
qed

lemma Reshape_scan_succeeds:
  "\<forall>x\<in>set xs. int32 x \<noteq> 0 \<Longrightarrow> \<exists>r. Reshape_scan xs k t m = Inr r"
  by (induction xs arbitrary: k t m) (auto simp: Let_def)

lemma Reshape_scan_index_negative:
  "Reshape_scan xs k t m = Inr (t', m') \<Longrightarrow>
     m' = m \<or> (\<exists>j<length xs. m' = int (k + j) \<and> int32 (xs ! j) < 0)"
proof (induction xs arbitrary: k t m)
  case Nil
  then show ?case by simp
next
  case (Cons x xs)
  show ?case
  proof (cases "int32 x < 0")
    case True
    with Cons.prems have "Reshape_scan xs (Suc k) t (int k) = Inr (t', m')"
      by (simp add: Let_def split: if_splits)
    from Cons.IH [OF this] show ?thesis
    proof
      assume "m' = int k"
      with True have "0 < length (x # xs) \<and> m' = int (k + 0) \<and> int32 ((x # xs) ! 0) < 0"
        by simp
      then show ?thesis by blast
    next
      assume "\<exists>j<length xs. m' = int (Suc k + j) \<and> int32 (xs ! j) < 0"
      then obtain j where "j < length xs" "m' = int (Suc k + j)" "int32 (xs ! j) < 0"
        by blast
      then have "Suc j < length (x # xs) \<and> m' = int (k + Suc j) \<and> int32 ((x # xs) ! Suc j) < 0"
        by simp
      then show ?thesis by blast
    qed
  next
    case False
    with Cons.prems have "Reshape_scan xs (Suc k) (int32 (t * int32 x)) m = Inr (t', m')"
      by (simp add: Let_def split: if_splits)
    from Cons.IH [OF this] show ?thesis
    proof
      assume "m' = m"
      then show ?thesis by simp
    next
      assume "\<exists>j<length xs. m' = int (Suc k + j) \<and> int32 (xs ! j) < 0"
      then obtain j where "j < length xs" "m' = int (Suc k + j)" "int32 (xs ! j) < 0"
        by blast
      then have "Suc j < length (x # xs) \<and> m' = int (k + Suc j) \<and> int32 ((x # xs) ! Suc j) < 0"
        by simp
      then show ?thesis by blast
    qed
  qed
qed

lemma prod_list_positive_ge1: "\<forall>x\<in>set xs. (0::int) < x \<Longrightarrow> 1 \<le> prod_list xs"
proof (induction xs)
  case Nil
  then show ?case by simp
next
  case (Cons a xs)
  then have "1 \<le> a" "1 \<le> prod_list xs" by auto
  then show ?case
    using mult_mono [of 1 a 1 "prod_list xs"] by simp
qed

lemma positive_le_prod_list:
  "\<forall>x\<in>set xs. (0::int) < x \<Longrightarrow> y \<in> set xs \<Longrightarrow> y \<le> prod_list xs"
proof (induction xs)
  case Nil
  then show ?case by simp
next
  case (Cons x xs)
  have p1: "1 \<le> prod_list xs"
    using Cons.prems(1) by (simp add: prod_list_positive_ge1)
  show ?case
  proof (cases "y = x")
    case True
    then show ?thesis
      using p1 Cons.prems(1) mult_left_mono [of 1 "prod_list xs" x] by simp
  next
    case False
    with Cons.prems have "y \<le> prod_list xs" using Cons.IH by simp
    moreover have "1 * prod_list xs \<le> x * prod_list xs"
      using Cons.prems(1) p1 by (intro mult_right_mono) auto
    ultimately show ?thesis by simp
  qed
qed

lemma Reshape_scan_one_placeholder:
  assumes pos: "\<forall>x\<in>set pre \<union> set post. 0 < x"
    and bound: "prod_list pre * prod_list post < 2 ^ 31"
  shows "Reshape_scan (pre @ - 1 # post) 0 1 (- 1) = Inr (prod_list pre * prod_list post, int (length pre))"
proof -
  let ?s = "pre @ - 1 # post"
  have pp: "positive_product ?s = prod_list pre * prod_list post"
  proof -
    have "filter (\<lambda>x. 0 < x) pre = pre" "filter (\<lambda>x. 0 < x) post = post"
      using pos by (auto intro: filter_True)
    then show ?thesis by (simp add: positive_product_def)
  qed
  have "\<forall>x\<in>set (pre @ post). 0 < x" using pos by auto
  then have "\<forall>y\<in>set (pre @ post). y \<le> prod_list (pre @ post)"
    using positive_le_prod_list by blast
  then have le: "y < 2 ^ 31" if "y \<in> set pre \<union> set post" for y
  proof -
    have "y \<le> prod_list pre * prod_list post"
      using that \<open>\<forall>y\<in>set (pre @ post). y \<le> prod_list (pre @ post)\<close> by simp
    with bound show ?thesis by linarith
  qed
  have range: "\<forall>x\<in>set ?s. - (2 ^ 31) \<le> x \<and> x < 2 ^ 31"
  proof
    fix x assume "x \<in> set ?s"
    then consider "x = - 1" | "x \<in> set pre \<union> set post" by auto
    then show "- (2 ^ 31) \<le> x \<and> x < 2 ^ 31"
    proof cases
      case 1
      then show ?thesis by simp
    next
      case 2
      with pos le have "0 < x" "x < 2 ^ 31" by auto
      then show ?thesis by simp
    qed
  qed
  have m1: "int32 (- 1) = - 1"
    by (simp add: int32_id)
  have "\<forall>x\<in>set ?s. int32 x \<noteq> 0"
    using range pos m1 by (auto simp: int32_id)
  then obtain t' m' where r: "Reshape_scan ?s 0 1 (- 1) = Inr (t', m')"
    using Reshape_scan_succeeds [of ?s 0 1 "- 1"] by auto
  have t': "t' = prod_list pre * prod_list post"
    using Reshape_scan_total [OF r] bound range pp by simp
  have neg: "int32 (?s ! length pre) < 0"
    using m1 by simp
  have ge: "int (length pre) \<le> m'"
    using Reshape_scan_last_negative [OF r, of "length pre"] neg by simp
  have "m' = int (length pre)"
    using Reshape_scan_index_negative [OF r]
  proof
    assume "m' = - 1"
    with ge show ?thesis by simp
  next
    assume "\<exists>j<length ?s. m' = int (0 + j) \<and> int32 (?s ! j) < 0"
    then obtain j where j: "j < length ?s" "m' = int j" "int32 (?s ! j) < 0"
      by auto
    have "j = length pre"
    proof (rule ccontr)
      assume ne: "j \<noteq> length pre"
      then have "?s ! j \<in> set pre \<union> set post"
        using j(1) by (auto simp: nth_append nth_Cons')
      then have "0 < ?s ! j" "?s ! j \<in> set ?s"
        using pos by auto
      then have "int32 (?s ! j) = ?s ! j" "0 < ?s ! j"
        using range by (auto simp: int32_id)
      with j(3) show False by simp
    qed
    with j(2) show ?thesis by simp
  qed
  with r t' show ?thesis by simp
qed

lemma sdiv_smod_positive:
  "0 \<le> (n::int) \<Longrightarrow> 0 < p \<Longrightarrow> n sdiv p = n div p \<and> n smod p = n mod p"
  by (cases "n = 0") (simp_all add: signed_divide_int_def signed_modulo_int_def)

lemma ReshapeOp_RunImpl_Inr:
  "ReshapeOp_RunImpl data s = Inr r \<Longrightarrow>
     \<exists>s'. ReshapeOp_shape (GetTotalSize data) s = Inr s' \<and> shape r = s'"
  by (auto simp: ReshapeOp_RunImpl_def Reshape_def split: sum.splits if_splits)

lemma ReshapeOp_shape_Inr:
  assumes "ReshapeOp_shape k s = Inr s'"
  shows "\<exists>t' m'. Reshape_scan s 0 1 (- 1) = Inr (t', m')
           \<and> (int32 k = t' \<and> s' = s \<or> t' < int32 k \<and> s' = s[nat m' := int32 k sdiv t'])"
proof (cases "Reshape_scan s 0 1 (- 1)")
  case (Inl e)
  with assms show ?thesis by (simp add: ReshapeOp_shape_def)
next
  case (Inr p)
  obtain t' m' where "p = (t', m')" by (cases p)
  with Inr assms show ?thesis
    by (auto simp: ReshapeOp_shape_def Let_def split: if_splits)
qed

text \<open>
  C9.  Reshape can produce a shape with a zero dimension: for an empty source and
  the target shape \<open>(-1, 46341, 46341)\<close>, which has no 0 entry, the product of the
  positive entries exceeds the range of \<^verbatim>\<open>int\<close> and \<^verbatim>\<open>to_total_size\<close> wraps to a
  negative value, \<^verbatim>\<open>CHECK_GT(from_total_size, to_total_size)\<close> passes and the \<open>-1\<close>
  entry is resolved to 0.
\<close>

theorem ReshapeOp_zero_dimension_counterexample:
  "0 \<notin> set [- 1, 46341, 46341::int]
   \<and> ReshapeOp_RunImpl \<lparr>dtype = kInt64, shape = [0], elems = ([]::int list)\<rparr> [- 1, 46341, 46341]
       = Inr \<lparr>dtype = kInt64, shape = [0, 46341, 46341], elems = []\<rparr>"
  by code_simp

text \<open>
  C9, as amended.  A Reshape whose target shape contains a 0 entry aborts with a
  fatal error, whatever the data, an empty source included.  When the entries of
  the target shape and the product of its positive entries are within the range
  of a 32-bit \<^verbatim>\<open>int\<close>, the shape of a result of Reshape has no 0 entry.
\<close>

theorem ReshapeOp_zero_entry:
  "(0 \<in> set s \<longrightarrow> ReshapeOp_RunImpl data s = Inl CheckFailure)
   \<and> ((\<forall>x\<in>set s. - (2 ^ 31) \<le> x \<and> x < 2 ^ 31) \<and> positive_product s < 2 ^ 31
        \<and> ReshapeOp_RunImpl data s = Inr r \<longrightarrow> 0 \<notin> set (shape r))"
proof (intro conjI impI)
  assume "0 \<in> set s"
  then show "ReshapeOp_RunImpl data s = Inl CheckFailure"
    by (simp add: ReshapeOp_RunImpl_def ReshapeOp_shape_def Reshape_scan_zero)
next
  let ?f = "int32 (GetTotalSize data)"
  assume a: "(\<forall>x\<in>set s. - (2 ^ 31) \<le> x \<and> x < 2 ^ 31) \<and> positive_product s < 2 ^ 31
        \<and> ReshapeOp_RunImpl data s = Inr r"
  then obtain s' where s': "ReshapeOp_shape (GetTotalSize data) s = Inr s'" "shape r = s'"
    using ReshapeOp_RunImpl_Inr by blast
  then obtain t' m' where scan: "Reshape_scan s 0 1 (- 1) = Inr (t', m')"
    and alt: "?f = t' \<and> s' = s \<or> t' < ?f \<and> s' = s[nat m' := ?f sdiv t']"
    using ReshapeOp_shape_Inr by blast
  have t': "t' = positive_product s"
    using Reshape_scan_total [OF scan] a by simp
  then have t1: "1 \<le> t'"
    by (simp add: positive_product_ge1)
  have nz: "0 \<notin> set s"
    using scan Reshape_scan_zero [of s 0 1 "- 1"] by auto
  show "0 \<notin> set (shape r)"
  proof (cases "?f = t'")
    case True
    with alt s'(2) nz show ?thesis
      by auto
  next
    case False
    with alt have gt: "t' < ?f" and eq: "s' = s[nat m' := ?f sdiv t']"
      by auto
    have "?f sdiv t' = ?f div t'"
      using gt t1 sdiv_smod_positive [of ?f t'] by simp
    moreover have "1 \<le> ?f div t'"
      using gt t1 pos_imp_zdiv_pos_iff [of t' ?f] by simp
    ultimately have "?f sdiv t' \<noteq> 0" by simp
    moreover have "set s' \<subseteq> insert (?f sdiv t') (set s)"
      unfolding eq by (rule set_update_subset_insert)
    ultimately show ?thesis
      using nz s'(2) by auto
  qed
qed

theorem ReshapeOp_zero_entry_witness:
  "0 \<in> set [0, 3::int]
   \<and> ReshapeOp_RunImpl \<lparr>dtype = kInt64, shape = [0], elems = ([]::int list)\<rparr> [0, 3] = Inl CheckFailure
   \<and> positive_product [- 1] < 2 ^ 31
   \<and> ReshapeOp_RunImpl \<lparr>dtype = kInt64, shape = [2, 3], elems = [1, 2, 3, 4, 5, 6::int]\<rparr> [- 1]
       = Inr \<lparr>dtype = kInt64, shape = [6], elems = [1, 2, 3, 4, 5, 6]\<rparr>
   \<and> 0 \<notin> set (shape \<lparr>dtype = kInt64, shape = [6], elems = [1, 2, 3, 4, 5, 6::int]\<rparr>)"
proof -
  have m1: "int32 (- 1) = - 1" and s6: "int32 6 = 6"
    by (simp_all add: int32_id)
  have run: "ReshapeOp_RunImpl \<lparr>dtype = kInt64, shape = [2, 3], elems = [1, 2, 3, 4, 5, 6::int]\<rparr> [- 1]
       = Inr \<lparr>dtype = kInt64, shape = [6], elems = [1, 2, 3, 4, 5, 6]\<rparr>"
    by (simp add: ReshapeOp_RunImpl_def ReshapeOp_shape_def Reshape_def GetTotalSize_def m1 s6
        signed_modulo_int_def)
  have pp: "positive_product [- 1] < 2 ^ 31"
    by (simp add: positive_product_def)
  show ?thesis
    using ReshapeOp_zero_entry [of "[0, 3]" "\<lparr>dtype = kInt64, shape = [0], elems = ([]::int list)\<rparr>"]
      ReshapeOp_zero_entry [of "[- 1]" "\<lparr>dtype = kInt64, shape = [2, 3], elems = [1, 2, 3, 4, 5, 6::int]\<rparr>"
        "\<lparr>dtype = kInt64, shape = [6], elems = [1, 2, 3, 4, 5, 6]\<rparr>"] run pp
    by simp
qed




text \<open>
  C2.  The claim fails for an empty source: reshaping a \<open>(0, 3)\<close> array to
  \<open>(-1, 3)\<close>, the product 3 of the other entries divides the total size 0, yet the
  kernel aborts at \<^verbatim>\<open>CHECK_GT(from_total_size, to_total_size)\<close>.
\<close>

theorem ReshapeOp_one_placeholder_counterexample:
  "(3::int) dvd GetTotalSize \<lparr>dtype = kInt64, shape = [0, 3], elems = ([]::int list)\<rparr>
   \<and> ReshapeOp_RunImpl \<lparr>dtype = kInt64, shape = [0, 3], elems = ([]::int list)\<rparr> [- 1, 3]
       = Inl CheckFailure"
proof -
  have m1: "int32 (- 1) = - 1" and s3: "int32 3 = 3"
    by (simp_all add: int32_id)
  show ?thesis
    by (simp add: ReshapeOp_RunImpl_def ReshapeOp_shape_def GetTotalSize_def m1 s3)
qed

text \<open>
  C2, as amended.  Let the target shape have exactly one \<open>-1\<close> entry and positive
  entries otherwise, with product \<open>p\<close>, and let the total size \<open>n\<close> of the data
  differ from \<open>p\<close> (both within the range of \<^verbatim>\<open>int\<close>).  If \<open>p\<close> divides \<open>n\<close> and
  \<open>p < n\<close>, the \<open>-1\<close> entry is resolved to \<open>n div p\<close> and the total size of the
  output is \<open>n\<close>; if \<open>p\<close> does not divide \<open>n\<close>, or \<open>n < p\<close> (an empty source
  included), the run aborts with a fatal error.
\<close>

theorem ReshapeOp_one_placeholder:
  assumes pos: "\<forall>x\<in>set pre \<union> set post. 0 < x"
    and bound: "prod_list pre * prod_list post < 2 ^ 31"
    and n0: "0 \<le> GetTotalSize data" and n31: "GetTotalSize data < 2 ^ 31"
    and ne: "GetTotalSize data \<noteq> prod_list pre * prod_list post"
  shows "(prod_list pre * prod_list post dvd GetTotalSize data
            \<and> prod_list pre * prod_list post < GetTotalSize data \<longrightarrow>
          ReshapeOp_RunImpl data (pre @ - 1 # post)
            = Inr (data\<lparr>shape := pre @ (GetTotalSize data div (prod_list pre * prod_list post)) # post\<rparr>)
          \<and> prod_list (pre @ (GetTotalSize data div (prod_list pre * prod_list post)) # post)
            = GetTotalSize data)
       \<and> (\<not> prod_list pre * prod_list post dvd GetTotalSize data
            \<or> GetTotalSize data < prod_list pre * prod_list post \<longrightarrow>
          ReshapeOp_RunImpl data (pre @ - 1 # post) = Inl CheckFailure)"
proof -
  let ?n = "GetTotalSize data" and ?p = "prod_list pre * prod_list post"
  have scan: "Reshape_scan (pre @ - 1 # post) 0 1 (- 1) = Inr (?p, int (length pre))"
    using Reshape_scan_one_placeholder [OF pos bound] .
  have fr: "int32 ?n = ?n"
    using n0 n31 by (simp add: int32_id)
  have p1: "1 \<le> ?p"
    using prod_list_positive_ge1 [of "pre @ post"] pos by auto
  have upd: "(pre @ - 1 # post)[length pre := q] = pre @ q # post" for q
    by (simp add: list_update_append)
  have small: "ReshapeOp_RunImpl data (pre @ - 1 # post) = Inl CheckFailure" if "?n < ?p"
    using that scan fr by (simp add: ReshapeOp_RunImpl_def ReshapeOp_shape_def)
  have big: "ReshapeOp_shape ?n (pre @ - 1 # post) =
      (if ?n mod ?p = 0 then Inr (pre @ (?n div ?p) # post) else Inl CheckFailure)" if "?p < ?n"
  proof -
    have "prod_list pre \<noteq> 0" "prod_list post \<noteq> 0"
      using p1 by auto
    then show ?thesis
      using that scan fr p1 sdiv_smod_positive [of ?n ?p] upd
      by (simp add: ReshapeOp_shape_def Let_def)
  qed
  have ok: "ReshapeOp_RunImpl data (pre @ - 1 # post) = Inr (data\<lparr>shape := pre @ (?n div ?p) # post\<rparr>)
      \<and> prod_list (pre @ (?n div ?p) # post) = ?n" if "?p dvd ?n" "?p < ?n"
  proof -
    have "prod_list (pre @ (?n div ?p) # post) = ?p * (?n div ?p)"
      by (simp add: mult.assoc mult.left_commute)
    also have "\<dots> = ?n"
      using that(1) by simp
    finally have e: "prod_list (pre @ (?n div ?p) # post) = ?n" .
    have "ReshapeOp_shape ?n (pre @ - 1 # post) = Inr (pre @ (?n div ?p) # post)"
      using big [OF that(2)] that(1) by (simp add: mod_eq_0_iff_dvd)
    moreover have "0 \<le> ?n div ?p"
      using n0 p1 by (simp add: pos_imp_zdiv_nonneg_iff)
    then have "list_all (\<lambda>d. 0 \<le> d) (pre @ (?n div ?p) # post)"
      using pos by (auto simp: list_all_iff less_imp_le)
    ultimately show ?thesis
      using e by (simp add: ReshapeOp_RunImpl_def Reshape_def)
  qed
  have bad: "ReshapeOp_RunImpl data (pre @ - 1 # post) = Inl CheckFailure" if "\<not> ?p dvd ?n"
  proof (cases "?n < ?p")
    case True
    then show ?thesis by (rule small)
  next
    case False
    with ne have "?p < ?n" by simp
    from big [OF this] that show ?thesis
      by (simp add: ReshapeOp_RunImpl_def mod_eq_0_iff_dvd)
  qed
  show ?thesis
    using ok bad small by blast
qed

theorem ReshapeOp_one_placeholder_witness:
  "prod_list [] * prod_list [2::int] < 2 ^ 31
   \<and> 0 \<le> GetTotalSize \<lparr>dtype = kInt64, shape = [2, 3], elems = [1, 2, 3, 4, 5, 6::int]\<rparr>
   \<and> GetTotalSize \<lparr>dtype = kInt64, shape = [2, 3], elems = [1, 2, 3, 4, 5, 6::int]\<rparr> < 2 ^ 31
   \<and> GetTotalSize \<lparr>dtype = kInt64, shape = [2, 3], elems = [1, 2, 3, 4, 5, 6::int]\<rparr>
       \<noteq> prod_list [] * prod_list [2]
   \<and> ReshapeOp_RunImpl \<lparr>dtype = kInt64, shape = [2, 3], elems = [1, 2, 3, 4, 5, 6::int]\<rparr> [- 1, 2]
       = Inr \<lparr>dtype = kInt64, shape = [3, 2], elems = [1, 2, 3, 4, 5, 6]\<rparr>"
  using ReshapeOp_one_placeholder [of "[]" "[2]"
      "\<lparr>dtype = kInt64, shape = [2, 3], elems = [1, 2, 3, 4, 5, 6::int]\<rparr>"]
  by (simp add: GetTotalSize_def)

text \<open>When the total size equals the product of the other entries the kernel skips
  the resolution and the \<open>-1\<close> entry reaches the engine, which rejects the shape.\<close>

lemma ReshapeOp_quotient_one:
  "ReshapeOp_shape 6 [- 1, 6] = Inr [- 1, 6]
   \<and> ReshapeOp_RunImpl \<lparr>dtype = kInt64, shape = [2, 3], elems = [1, 2, 3, 4, 5, 6::int]\<rparr> [- 1, 6]
       = Inl EngineError"
proof -
  have m1: "int32 (- 1) = - 1" and s6: "int32 6 = 6"
    by (simp_all add: int32_id)
  show ?thesis
    by (simp add: ReshapeOp_RunImpl_def ReshapeOp_shape_def Reshape_def GetTotalSize_def m1 s6)
qed

subsection \<open>Pad\<close>

lemma ravel_less: "valid_index ds idx \<Longrightarrow> ravel ds idx < prod_list ds"
proof (induction ds idx rule: valid_index.induct)
  case 1
  then show ?case by simp
next
  case (2 d ds i "is")
  then have "i < d" and r: "ravel ds is < prod_list ds" by simp_all
  then have "Suc i * prod_list ds \<le> d * prod_list ds"
    by (intro mult_le_mono1) simp
  with r show ?case by simp
qed simp_all

lemma unravel_ravel: "valid_index ds idx \<Longrightarrow> unravel ds (ravel ds idx) = idx"
proof (induction ds idx rule: valid_index.induct)
  case 1
  then show ?case by simp
next
  case (2 d ds i "is")
  then have r: "ravel ds is < prod_list ds" by (simp add: ravel_less)
  with 2 show ?case by simp
qed simp_all

lemma valid_index_nth:
  "valid_index ds idx \<longleftrightarrow> length idx = length ds \<and> (\<forall>j<length ds. idx ! j < ds ! j)"
proof (induction ds idx rule: valid_index.induct)
  case (2 d ds i "is")
  then show ?case by (auto simp: nth_Cons' All_less_Suc2)
qed auto

lemma in_view_nth:
  "length view = length idx \<Longrightarrow>
     in_view view idx \<longleftrightarrow> (\<forall>j<length idx. fst (view ! j) \<le> idx ! j \<and> idx ! j < fst (view ! j) + snd (view ! j))"
proof (induction view idx rule: in_view.induct)
  case (1 b n rs i "is")
  then show ?case by (auto simp: nth_Cons' All_less_Suc2)
qed auto

lemma Pad_loop_eq:
  "Pad_loop pads n i ds acc =
     (map (\<lambda>j. ds ! j + (pads ! (i + j) + pads ! (i + j + n))) [0..<length ds],
      acc @ map (\<lambda>j. (pads ! (i + j), pads ! (i + j) + ds ! j)) [0..<length ds])"
proof (induction ds arbitrary: i acc)
  case Nil
  then show ?case by simp
next
  case (Cons d ds)
  have "[0..<length (d # ds)] = 0 # map Suc [0..<length ds]"
    by (simp add: upt_conv_Cons map_Suc_upt del: upt_Suc)
  then show ?case
    by (simp add: Cons.IH o_def del: upt_Suc)
qed

lemma Slice_nonneg:
  "0 \<le> p \<Longrightarrow> 0 \<le> q \<Longrightarrow> 0 \<le> d \<Longrightarrow> Slice p (p + d) (d + (p + q)) = (nat p, nat d)"
  by (simp add: Slice_def Let_def)

lemma map2_map_same: "map2 h (map f xs) (map g xs) = map (\<lambda>x. h (f x) (g x)) xs"
  by (induction xs) auto

lemma PadOp_result:
  assumes wf: "well_formed data"
    and len: "length pads = 2 * length (shape data)"
    and nonneg: "list_all (\<lambda>p. 0 \<le> p) pads"
  defines "n \<equiv> length (shape data)"
  defines "news \<equiv> map (\<lambda>j. shape data ! j + (pads ! j + pads ! (j + n))) [0..<n]"
  defines "view \<equiv> map (\<lambda>j. (nat (pads ! j), nat (shape data ! j))) [0..<n]"
  shows "PadOp_RunImpl pads v data =
     Inr \<lparr>dtype = dtype data, shape = news,
          elems = map (\<lambda>k. if in_view view (unravel (map nat news) k)
                            then elems data ! ravel (dims data)
                                   (map2 (\<lambda>i (b, n). i - b) (unravel (map nat news) k) view)
                            else v)
                      [0..<prod_list (map nat news)]\<rparr>"
proof -
  have p0: "0 \<le> pads ! j" if "j < 2 * n" for j
    using nonneg len that by (simp add: list_all_length n_def)
  have d0: "0 \<le> shape data ! j" if "j < n" for j
    using wf that by (simp add: well_formed_def list_all_length n_def)
  have loop: "Pad_loop pads n 0 (shape data) [] =
      (news, map (\<lambda>j. (pads ! j, pads ! j + shape data ! j)) [0..<n])"
    by (simp add: Pad_loop_eq news_def n_def)
  have news0: "list_all (\<lambda>d. 0 \<le> d) news"
    using p0 d0 by (auto simp: list_all_iff news_def)
  have full: "Full news v (dtype data) =
      Inr \<lparr>dtype = dtype data, shape = news, elems = replicate (prod_list (map nat news)) v\<rparr>"
    using news0 by (simp add: Full_def)
  have vw: "map2 (\<lambda>(start, stop) d. Slice start stop d)
              (map (\<lambda>j. (pads ! j, pads ! j + shape data ! j)) [0..<n]) news = view"
    unfolding news_def view_def map2_map_same
    using p0 d0 by (auto simp: Slice_nonneg)
  have vs: "map (\<lambda>(b, n). int n) view = shape data"
    unfolding view_def
    using d0 by (auto simp: n_def intro!: nth_equalityI)
  have ln: "length news = n"
    by (simp add: news_def)
  show ?thesis
    using len
    by (simp add: PadOp_RunImpl_def loop full Copy_At_def vw vs ln n_def [symmetric] dims_def
        cong: map_cong)
qed

text \<open>
  C6, as amended.  For data of rank \<open>n\<close>, a pads list of length \<open>2 n\<close> whose entries
  are all non-negative, and a fill value \<open>v\<close>: Pad yields a result whose shape along
  each axis \<open>i\<close> is \<open>shape\<^sub>i + pads\<^sub>i + pads\<^sub>i\<^sub>+\<^sub>n\<close>; the element at offset
  \<open>pads\<^sub>i\<close> plus \<open>idx\<^sub>i\<close> on every axis is the element of the data at the
  multi-index \<open>idx\<close>; and every position outside that block holds \<open>v\<close>.
\<close>

theorem PadOp_pads:
  assumes wf: "well_formed data"
    and len: "length pads = 2 * length (shape data)"
    and nonneg: "list_all (\<lambda>p. 0 \<le> p) pads"
  shows "\<exists>result. PadOp_RunImpl pads v data = Inr result
     \<and> length (shape result) = length (shape data)
     \<and> (\<forall>i<length (shape data).
          shape result ! i = shape data ! i + pads ! i + pads ! (i + length (shape data)))
     \<and> (\<forall>idx. valid_index (dims data) idx \<longrightarrow>
          element result (map2 (\<lambda>j p. j + nat p) idx pads) = element data idx)
     \<and> (\<forall>idx. valid_index (dims result) idx
            \<and> \<not> (\<forall>i<length (shape data).
                   pads ! i \<le> int (idx ! i) \<and> int (idx ! i) < pads ! i + shape data ! i) \<longrightarrow>
          element result idx = v)"
proof -
  define n where "n = length (shape data)"
  define news where "news = map (\<lambda>j. shape data ! j + (pads ! j + pads ! (j + n))) [0..<n]"
  define view where "view = map (\<lambda>j. (nat (pads ! j), nat (shape data ! j))) [0..<n]"
  define f where "f = (\<lambda>k. if in_view view (unravel (map nat news) k)
                            then elems data ! ravel (dims data)
                                   (map2 (\<lambda>i (b, n). i - b) (unravel (map nat news) k) view)
                            else v)"
  define result where "result = \<lparr>dtype = dtype data, shape = news,
          elems = map f [0..<prod_list (map nat news)]\<rparr>"
  have run: "PadOp_RunImpl pads v data = Inr result"
    using PadOp_result [OF wf len nonneg, of v]
    by (simp add: result_def f_def view_def news_def n_def)
  have p0: "0 \<le> pads ! j" if "j < 2 * n" for j
    using nonneg len that by (simp add: list_all_length n_def)
  have d0: "0 \<le> shape data ! j" if "j < n" for j
    using wf that by (simp add: well_formed_def list_all_length n_def)
  have ln: "length (shape result) = n"
    by (simp add: result_def news_def)
  have sh: "shape result ! i = shape data ! i + pads ! i + pads ! (i + n)" if "i < n" for i
    using that by (simp add: result_def news_def)
  have dr: "dims result = map nat news"
    by (simp add: dims_def result_def)
  have el: "element result idx = f (ravel (map nat news) idx)" if "valid_index (dims result) idx" for idx
  proof -
    have er: "elems result = map f [0..<prod_list (map nat news)]"
      by (simp add: result_def)
    show ?thesis
      using that ravel_less [of "map nat news" idx]
      by (simp add: element_def dr er)
  qed
  have el2: "element result idx =
      (if in_view view idx
       then elems data ! ravel (dims data) (map2 (\<lambda>i (b, n). i - b) idx view) else v)"
    if "valid_index (dims result) idx" for idx
    using that el [OF that] unravel_ravel [of "map nat news" idx]
    by (simp add: f_def dr)
  have lv: "length view = n"
    by (simp add: view_def)
  have iv: "in_view view idx \<longleftrightarrow>
      (\<forall>j<n. nat (pads ! j) \<le> idx ! j \<and> idx ! j < nat (pads ! j) + nat (shape data ! j))"
    if "length idx = n" for idx
    using in_view_nth [of view idx] that lv by (simp add: view_def)
  have inside: "element result (map2 (\<lambda>j p. j + nat p) idx pads) = element data idx"
    if v: "valid_index (dims data) idx" for idx
  proof -
    let ?idx' = "map2 (\<lambda>j p. j + nat p) idx pads"
    have li: "length idx = n" and lt: "\<And>j. j < n \<Longrightarrow> idx ! j < nat (shape data ! j)"
      using v by (simp_all add: valid_index_nth dims_def n_def)
    have li': "length ?idx' = n"
      using li len by (simp add: n_def)
    have nth': "?idx' ! j = idx ! j + nat (pads ! j)" if "j < n" for j
      using that li len by (simp add: n_def)
    have "valid_index (dims result) ?idx'"
      unfolding valid_index_nth dr
    proof (intro conjI allI impI)
      show "length ?idx' = length (map nat news)"
        using li' by (simp add: news_def)
    next
      fix j assume "j < length (map nat news)"
      then have j: "j < n" by (simp add: news_def)
      have "map nat news ! j = nat (shape data ! j + (pads ! j + pads ! (j + n)))"
        using j by (simp add: news_def)
      moreover have "0 \<le> pads ! j" "0 \<le> pads ! (j + n)" "0 \<le> shape data ! j"
        using p0 [of j] p0 [of "j + n"] d0 [of j] j by simp_all
      ultimately show "?idx' ! j < map nat news ! j"
        using lt [OF j] nth' [OF j] by linarith
    qed
    moreover have "in_view view ?idx'"
      unfolding iv [OF li']
    proof (intro allI impI)
      fix j assume j: "j < n"
      show "nat (pads ! j) \<le> ?idx' ! j \<and> ?idx' ! j < nat (pads ! j) + nat (shape data ! j)"
        using lt [OF j] nth' [OF j] by linarith
    qed
    moreover have "map2 (\<lambda>i (b, n). i - b) ?idx' view = idx"
    proof (rule nth_equalityI)
      show "length (map2 (\<lambda>i (b, n). i - b) ?idx' view) = length idx"
        using li li' lv by simp
    next
      fix j assume "j < length (map2 (\<lambda>i (b, n). i - b) ?idx' view)"
      then have j: "j < n" using lv by simp
      then have "j < length ?idx'" "j < length view" using li' lv by simp_all
      then have "map2 (\<lambda>i (b, n). i - b) ?idx' view ! j = (\<lambda>(b, n). ?idx' ! j - b) (view ! j)"
        by simp
      also have "view ! j = (nat (pads ! j), nat (shape data ! j))"
        using j by (simp add: view_def)
      finally show "map2 (\<lambda>i (b, n). i - b) ?idx' view ! j = idx ! j"
        using nth' [OF j] by simp
    qed
    ultimately show ?thesis
      using el2 [of ?idx'] by (simp add: element_def)
  qed
  have outside: "element result idx = v"
    if v: "valid_index (dims result) idx"
      and o: "\<not> (\<forall>i<n. pads ! i \<le> int (idx ! i) \<and> int (idx ! i) < pads ! i + shape data ! i)"
    for idx
  proof -
    have li: "length idx = n"
      using v by (simp add: valid_index_nth dr news_def)
    from o obtain i where i: "i < n"
      "\<not> (pads ! i \<le> int (idx ! i) \<and> int (idx ! i) < pads ! i + shape data ! i)"
      by blast
    then have "\<not> (nat (pads ! i) \<le> idx ! i \<and> idx ! i < nat (pads ! i) + nat (shape data ! i))"
      using p0 [of i] d0 [of i] by auto
    with i(1) have "\<not> in_view view idx"
      using iv [OF li] by blast
    then show ?thesis
      using el2 [OF v] by simp
  qed
  show ?thesis
    using run ln sh inside outside unfolding n_def by blast
qed

theorem PadOp_pads_witness:
  "well_formed \<lparr>dtype = kInt64, shape = [2, 2], elems = [1, 2, 3, 4::int]\<rparr>
   \<and> length [1, 0, 0, 2::int] = 2 * length (shape \<lparr>dtype = kInt64, shape = [2, 2], elems = [1, 2, 3, 4::int]\<rparr>)
   \<and> list_all (\<lambda>p. 0 \<le> p) [1, 0, 0, 2::int]
   \<and> PadOp_RunImpl [1, 0, 0, 2] 0 \<lparr>dtype = kInt64, shape = [2, 2], elems = [1, 2, 3, 4::int]\<rparr>
       = Inr \<lparr>dtype = kInt64, shape = [3, 4], elems = [0, 0, 0, 0, 1, 2, 0, 0, 3, 4, 0, 0]\<rparr>
   \<and> (\<exists>result. PadOp_RunImpl [1, 0, 0, 2] 0 \<lparr>dtype = kInt64, shape = [2, 2], elems = [1, 2, 3, 4::int]\<rparr>
         = Inr result \<and> length (shape result) = 2)"
proof -
  let ?d = "\<lparr>dtype = kInt64, shape = [2, 2], elems = [1, 2, 3, 4::int]\<rparr>"
  have a: "well_formed ?d"
    by (simp add: well_formed_def dims_def)
  have b: "length [1, 0, 0, 2::int] = 2 * length (shape ?d)"
    by simp
  have c: "list_all (\<lambda>p. 0 \<le> p) [1, 0, 0, 2::int]"
    by simp
  have d: "PadOp_RunImpl [1, 0, 0, 2] 0 ?d
       = Inr \<lparr>dtype = kInt64, shape = [3, 4], elems = [0, 0, 0, 0, 1, 2, 0, 0, 3, 4, 0, 0]\<rparr>"
    by code_simp
  from PadOp_pads [OF a b c, of 0] obtain result where
    "PadOp_RunImpl [1, 0, 0, 2] 0 ?d = Inr result" "length (shape result) = length (shape ?d)"
    by blast
  then have "\<exists>result. PadOp_RunImpl [1, 0, 0, 2] 0 ?d = Inr result \<and> length (shape result) = 2"
    by simp
  with a b c d show ?thesis by blast
qed

text \<open>
  C6.  The claim fails for a negative pad: with pads \<open>(-1, 0)\<close> on three elements
  the padded shape has two positions, the slice of the view holds one, and the
  copy of the three elements into it is rejected; no output exists.
\<close>

theorem PadOp_negative_pad_counterexample:
  "length [- 1, 0::int] = 2 * length (shape \<lparr>dtype = kInt64, shape = [3], elems = [1, 2, 3::int]\<rparr>)
   \<and> PadOp_RunImpl [- 1, 0] 0 \<lparr>dtype = kInt64, shape = [3], elems = [1, 2, 3::int]\<rparr>
       = Inl EngineError"
  by code_simp

subsection \<open>Concat and Split\<close>

lemma concat_blocks_take: "concat (map (\<lambda>k. take m (drop (k * m) xs)) [0..<n]) = take (n * m) xs"
proof (induction n)
  case 0
  then show ?case by simp
next
  case (Suc n)
  have "take (n * m + m) xs = take (n * m) xs @ take m (drop (n * m) xs)"
    by (rule take_add)
  with Suc show ?case by (simp add: add.commute)
qed

lemma length_concat_blocks:
  "\<forall>k<n. length (f k) = m \<Longrightarrow> length (concat (map f [0..<n])) = n * m"
  by (induction n) simp_all

lemma block_of_concat:
  assumes "\<forall>k<n. length (f k) = m" and "k < n"
  shows "take m (drop (k * m) (concat (map f [0..<n]))) = f k"
  using assms
proof (induction n)
  case 0
  then show ?case by simp
next
  case (Suc n)
  let ?A = "concat (map f [0..<n])"
  have lA: "length ?A = n * m"
    using Suc.prems(1) by (intro length_concat_blocks) simp
  have lf: "length (f n) = m"
    using Suc.prems(1) by simp
  show ?case
  proof (cases "k < n")
    case True
    then have "Suc k \<le> n" by simp
    then have "Suc k * m \<le> n * m" by (rule mult_le_mono1)
    then have le: "k * m + m \<le> length ?A" using lA by simp
    have "take m (drop (k * m) (?A @ f n)) = take m (drop (k * m) ?A)"
      using le by simp
    also have "\<dots> = f k"
      using Suc.IH Suc.prems(1) True by simp
    finally show ?thesis by simp
  next
    case False
    with Suc.prems(2) have "k = n" by simp
    then show ?thesis using lA lf by simp
  qed
qed

lemma prod_list_axis:
  "axis < length ds \<Longrightarrow> prod_list ds = outer_size ds axis * (ds ! axis) * inner_size ds axis"
proof -
  assume a: "axis < length ds"
  have "ds = take axis ds @ ds ! axis # drop (Suc axis) ds"
    using a by (rule id_take_nth_drop)
  then have "prod_list ds = prod_list (take axis ds @ ds ! axis # drop (Suc axis) ds)"
    by simp
  then show ?thesis
    by (simp add: outer_size_def inner_size_def mult.assoc)
qed

lemma slice_axis_simps:
  "dtype (slice_axis axis s l x) = dtype x"
  "shape (slice_axis axis s l x) = (shape x)[axis := int l]"
  "dims (slice_axis axis s l x) = (dims x)[axis := l]"
  "inner_size (dims (slice_axis axis s l x)) axis = inner_size (dims x) axis"
  "outer_size (dims (slice_axis axis s l x)) axis = outer_size (dims x) axis"
  by (simp_all add: slice_axis_def dims_def map_update inner_size_def outer_size_def)

lemma well_formed_length:
  "well_formed x \<Longrightarrow> axis < length (shape x) \<Longrightarrow>
     length (elems x) = outer_size (dims x) axis * (dims x ! axis) * inner_size (dims x) axis"
  using prod_list_axis [of axis "dims x"] by (simp add: well_formed_def dims_def)

lemma slice_axis_block:
  assumes wf: "well_formed x" and ax: "axis < length (shape x)"
    and k: "k < outer_size (dims x) axis" and fit: "s + l \<le> dims x ! axis"
  shows "axis_block (inner_size (dims x) axis) l k (elems (slice_axis axis s l x))
       = take (l * inner_size (dims x) axis)
           (drop ((k * (dims x ! axis) + s) * inner_size (dims x) axis) (elems x))"
proof -
  let ?I = "inner_size (dims x) axis" and ?D = "dims x ! axis" and ?O = "outer_size (dims x) axis"
  let ?f = "\<lambda>k. take (l * ?I) (drop ((k * ?D + s) * ?I) (elems x))"
  have len: "length (elems x) = ?O * ?D * ?I"
    using wf ax by (rule well_formed_length)
  have lf: "length (?f k') = l * ?I" if "k' < ?O" for k'
  proof -
    have "k' * ?D + s + l \<le> Suc k' * ?D" using fit by simp
    also have "\<dots> \<le> ?O * ?D" using that by (intro mult_le_mono1) simp
    finally have "(k' * ?D + s + l) * ?I \<le> ?O * ?D * ?I"
      by (rule mult_le_mono1)
    then have "(k' * ?D + s) * ?I + l * ?I \<le> length (elems x)"
      using len by (simp add: add_mult_distrib)
    then show ?thesis by simp
  qed
  have "take (l * ?I) (drop (k * (l * ?I)) (concat (map ?f [0..<?O]))) = ?f k"
    using lf k by (intro block_of_concat) auto
  then show ?thesis
    by (simp add: axis_block_def slice_axis_def mult.assoc)
qed

lemma Split_from_blocks:
  assumes wf: "well_formed x" and ax: "axis < length (shape x)"
    and k: "k < outer_size (dims x) axis"
  shows "s + sum_list ls \<le> dims x ! axis \<Longrightarrow>
     concat (map (\<lambda>a. axis_block (inner_size (dims x) axis) (dims a ! axis) k (elems a))
               (Split_from x axis s ls))
       = take (sum_list ls * inner_size (dims x) axis)
           (drop ((k * (dims x ! axis) + s) * inner_size (dims x) axis) (elems x))"
proof (induction ls arbitrary: s)
  case Nil
  then show ?case by simp
next
  case (Cons l ls)
  let ?I = "inner_size (dims x) axis" and ?D = "dims x ! axis"
  let ?a = "(k * ?D + s) * ?I"
  have axd: "axis < length (dims x)"
    using ax by (simp add: dims_def)
  have hd: "axis_block ?I (dims (slice_axis axis s l x) ! axis) k (elems (slice_axis axis s l x))
      = take (l * ?I) (drop ?a (elems x))"
    using slice_axis_block [OF wf ax k, of s l] Cons.prems axd
    by (simp add: slice_axis_simps)
  have tl: "concat (map (\<lambda>a. axis_block ?I (dims a ! axis) k (elems a)) (Split_from x axis (s + l) ls))
      = take (sum_list ls * ?I) (drop ((k * ?D + (s + l)) * ?I) (elems x))"
    using Cons.IH [of "s + l"] Cons.prems by simp
  have "(k * ?D + (s + l)) * ?I = l * ?I + ?a"
    by (simp add: add_mult_distrib)
  then have "take (sum_list ls * ?I) (drop ((k * ?D + (s + l)) * ?I) (elems x))
      = take (sum_list ls * ?I) (drop (l * ?I) (drop ?a (elems x)))"
    by simp
  moreover have "take (l * ?I + sum_list ls * ?I) (drop ?a (elems x))
      = take (l * ?I) (drop ?a (elems x)) @ take (sum_list ls * ?I) (drop (l * ?I) (drop ?a (elems x)))"
    by (rule take_add)
  ultimately show ?case
    using hd tl by (simp add: add_mult_distrib)
qed

lemma Split_from_pieces:
  "list_all (\<lambda>a. dtype a = dtype x \<and> length (shape a) = length (shape x)
              \<and> (shape a)[axis := 0] = (shape x)[axis := 0])
     (Split_from x axis s ls)"
  by (induction ls arbitrary: s) (simp_all add: slice_axis_simps)

lemma Split_from_axis_sum:
  "axis < length (shape x) \<Longrightarrow>
     sum_list (map (\<lambda>a. shape a ! axis) (Split_from x axis s ls)) = int (sum_list ls)"
  by (induction ls arbitrary: s) (simp_all add: slice_axis_simps)

lemma length_Split_from: "length (Split_from x axis s ls) = length ls"
  by (induction ls arbitrary: s) simp_all

lemma Concat_Split_from:
  assumes wf: "well_formed x" and ax: "axis < length (shape x)"
    and ne: "ls \<noteq> []" and sum: "sum_list ls = dims x ! axis"
  shows "Concat (Split_from x axis 0 ls) (int axis) = Inr x"
proof -
  let ?I = "inner_size (dims x) axis" and ?D = "dims x ! axis" and ?O = "outer_size (dims x) axis"
  let ?ps = "Split_from x axis 0 ls"
  from ne obtain l ls' where ls: "ls = l # ls'"
    by (cases ls) auto
  let ?a0 = "slice_axis axis 0 l x"
  have ps: "?ps = ?a0 # Split_from x axis (0 + l) ls'"
    by (simp add: ls)
  have checks: "list_all (\<lambda>a. dtype a = dtype ?a0 \<and> length (shape a) = length (shape ?a0)
                      \<and> (shape a)[axis := 0] = (shape ?a0)[axis := 0]) ?ps"
    using Split_from_pieces [of x axis 0 ls] by (simp add: slice_axis_simps)
  have d0: "0 \<le> shape x ! axis"
    using wf ax by (simp add: well_formed_def list_all_length)
  have sh: "(shape ?a0)[axis := sum_list (map (\<lambda>a. shape a ! axis) ?ps)] = shape x"
  proof -
    have "sum_list (map (\<lambda>a. shape a ! axis) ?ps) = int (sum_list ls)"
      using ax by (rule Split_from_axis_sum)
    also have "\<dots> = shape x ! axis"
      using sum d0 ax by (simp add: dims_def)
    finally show ?thesis
      by (simp add: slice_axis_simps)
  qed
  have blocks: "concat (map (\<lambda>a. axis_block ?I (dims a ! axis) k (elems a)) ?ps)
      = take (?D * ?I) (drop (k * (?D * ?I)) (elems x))" if "k < ?O" for k
    using Split_from_blocks [OF wf ax that, of 0 ls] sum by (simp add: mult.assoc)
  have "concat (map (\<lambda>k. concat (map (\<lambda>a. axis_block ?I (dims a ! axis) k (elems a)) ?ps)) [0..<?O])
      = concat (map (\<lambda>k. take (?D * ?I) (drop (k * (?D * ?I)) (elems x))) [0..<?O])"
    using blocks by (intro arg_cong [where f = concat] map_cong) auto
  also have "\<dots> = take (?O * (?D * ?I)) (elems x)"
    by (rule concat_blocks_take)
  also have "\<dots> = elems x"
    using well_formed_length [OF wf ax] by (simp add: mult.assoc)
  finally have el: "concat (map (\<lambda>k. concat (map (\<lambda>a. axis_block ?I (dims a ! axis) k (elems a)) ?ps))
      [0..<?O]) = elems x" .
  have "Concat ?ps (int axis) =
      Inr \<lparr>dtype = dtype ?a0,
           shape = (shape ?a0)[axis := sum_list (map (\<lambda>a. shape a ! axis) ?ps)],
           elems = concat (map (\<lambda>k. concat (map (\<lambda>a.
                      axis_block (inner_size (dims ?a0) axis) (dims a ! axis) k (elems a)) ?ps))
                    [0..<outer_size (dims ?a0) axis])\<rparr>"
    using checks ax unfolding Concat_def ps
    by (simp add: slice_axis_simps(2) del: Split_from.simps)
  also have "\<dots> = Inr x"
  proof -
    have i0: "inner_size (dims ?a0) axis = ?I" and o0: "outer_size (dims ?a0) axis = ?O"
      and dt: "dtype ?a0 = dtype x"
      by (rule slice_axis_simps)+
    show ?thesis
      unfolding sh i0 o0 dt el by simp
  qed
  finally show ?thesis .
qed

lemma Split_from_axis_dims:
  "axis < length (shape x) \<Longrightarrow>
     map (\<lambda>a. shape a ! axis) (Split_from x axis s ls) = map int ls"
  by (induction ls arbitrary: s) (simp_all add: slice_axis_simps)

lemma sum_list_map_nat:
  "list_all (\<lambda>l. 0 \<le> l) ls \<Longrightarrow> int (sum_list (map nat ls)) = sum_list ls"
  by (induction ls) simp_all

lemma map_int_nat: "list_all (\<lambda>l. 0 \<le> l) ls \<Longrightarrow> map int (map nat ls) = ls"
  by (induction ls) simp_all

lemma Concat_Split:
  assumes wf: "well_formed x" and ax: "0 \<le> axis" "axis < int (length (shape x))"
    and ne: "lens \<noteq> []" and nonneg: "list_all (\<lambda>l. 0 \<le> l) lens"
    and sum: "sum_list lens = shape x ! nat axis"
  shows "\<exists>ys. Split x lens axis = Inr ys \<and> length ys = length lens
           \<and> map (\<lambda>a. shape a ! nat axis) ys = lens \<and> Concat ys axis = Inr x"
proof -
  let ?ys = "Split_from x (nat axis) 0 (map nat lens)"
  have ax': "nat axis < length (shape x)"
    using ax by simp
  have s: "Split x lens axis = Inr ?ys"
    using ax nonneg sum by (simp add: Split_def)
  have "int (sum_list (map nat lens)) = shape x ! nat axis"
    using sum_list_map_nat [OF nonneg] sum by simp
  then have sm: "sum_list (map nat lens) = dims x ! nat axis"
    using ax' by (simp add: dims_def)
  have "Concat ?ys (int (nat axis)) = Inr x"
    using wf ax' _ sm by (rule Concat_Split_from) (simp add: ne)
  then have c: "Concat ?ys axis = Inr x"
    using ax by simp
  have "map (\<lambda>a. shape a ! nat axis) ?ys = lens"
    using Split_from_axis_dims [OF ax'] map_int_nat [OF nonneg] by simp
  with s c show ?thesis
    by (simp add: length_Split_from)
qed

text \<open>
  C4.  For a well-formed array \<open>x\<close> and an axis of it: when Split is given segment
  lengths that it accepts (non-negative, summing up to the size of the axis), or
  no lengths and a number of outputs that divides the size of the axis, it yields
  one output per segment, of the given length along the axis, and Concat of the
  outputs along the same axis, in order, is \<open>x\<close> again.  Without lengths, a
  number of outputs that does not divide the size of the axis is a fatal error.
\<close>

theorem Concat_Split_roundtrip:
  assumes wf: "well_formed x" and ax: "0 \<le> axis" "axis < int (length (shape x))"
  shows "(split \<noteq> [] \<and> list_all (\<lambda>l. 0 \<le> l) split \<and> sum_list split = shape x ! nat axis \<longrightarrow>
            (\<exists>ys. SplitOp_RunImpl split axis n x = Inr ys \<and> length ys = length split
               \<and> map (\<lambda>a. shape a ! nat axis) ys = split \<and> ConcatOp_RunImpl axis ys = Inr x))
       \<and> (0 < n \<and> n < 2 ^ 31 \<and> int n dvd shape x ! nat axis \<longrightarrow>
            (\<exists>ys. SplitOp_RunImpl [] axis n x = Inr ys \<and> length ys = n
               \<and> map (\<lambda>a. shape a ! nat axis) ys = replicate n (shape x ! nat axis div int n)
               \<and> ConcatOp_RunImpl axis ys = Inr x))
       \<and> (0 < n \<and> n < 2 ^ 31 \<and> \<not> int n dvd shape x ! nat axis \<longrightarrow>
            SplitOp_RunImpl [] axis n x = Inl CheckFailure)"
proof (intro conjI impI)
  assume a: "split \<noteq> [] \<and> list_all (\<lambda>l. 0 \<le> l) split \<and> sum_list split = shape x ! nat axis"
  then show "\<exists>ys. SplitOp_RunImpl split axis n x = Inr ys \<and> length ys = length split
               \<and> map (\<lambda>a. shape a ! nat axis) ys = split \<and> ConcatOp_RunImpl axis ys = Inr x"
    using Concat_Split [OF wf ax, of split]
    by (simp add: SplitOp_RunImpl_def ConcatOp_RunImpl_def)
next
  let ?dim = "shape x ! nat axis"
  have d0: "0 \<le> ?dim"
    using wf ax by (simp add: well_formed_def list_all_length)
  {
    assume n: "0 < n \<and> n < 2 ^ 31"
    then have n32: "int32 (int n) = int n"
      by (intro int32_id) simp_all
    have "?dim sdiv int n = ?dim div int n \<and> ?dim smod int n = ?dim mod int n"
      using d0 n by (intro sdiv_smod_positive) simp_all
    with n n32 have "SplitOp_RunImpl [] axis n x =
        (if ?dim mod int n \<noteq> 0 then Inl CheckFailure
         else Split x (replicate n (?dim div int n)) axis)"
      using ax by (simp add: SplitOp_RunImpl_def Let_def)
  } note run = this
  {
    assume a: "0 < n \<and> n < 2 ^ 31 \<and> int n dvd ?dim"
    let ?lens = "replicate n (?dim div int n)"
    have r: "SplitOp_RunImpl [] axis n x = Split x ?lens axis"
      using run a by (simp add: mod_eq_0_iff_dvd)
    have "0 \<le> ?dim div int n"
      using d0 a by (simp add: pos_imp_zdiv_nonneg_iff)
    then have nn: "list_all (\<lambda>l. 0 \<le> l) ?lens"
      by (simp add: list_all_length)
    have sm: "sum_list ?lens = ?dim"
      using a by (simp add: sum_list_replicate)
    have ne: "?lens \<noteq> []"
      using a by simp
    show "\<exists>ys. SplitOp_RunImpl [] axis n x = Inr ys \<and> length ys = n
               \<and> map (\<lambda>a. shape a ! nat axis) ys = ?lens \<and> ConcatOp_RunImpl axis ys = Inr x"
      using Concat_Split [OF wf ax ne nn sm] r by (simp add: ConcatOp_RunImpl_def)
  }
  {
    assume a: "0 < n \<and> n < 2 ^ 31 \<and> \<not> int n dvd ?dim"
    then show "SplitOp_RunImpl [] axis n x = Inl CheckFailure"
      using run by (simp add: mod_eq_0_iff_dvd)
  }
qed

theorem Concat_Split_roundtrip_witness:
  "well_formed \<lparr>dtype = kInt64, shape = [2, 3], elems = [1, 2, 3, 4, 5, 6::int]\<rparr>
   \<and> SplitOp_RunImpl [1, 2] 1 2 \<lparr>dtype = kInt64, shape = [2, 3], elems = [1, 2, 3, 4, 5, 6::int]\<rparr>
       = Inr [\<lparr>dtype = kInt64, shape = [2, 1], elems = [1, 4]\<rparr>,
              \<lparr>dtype = kInt64, shape = [2, 2], elems = [2, 3, 5, 6]\<rparr>]
   \<and> (\<exists>ys. SplitOp_RunImpl [1, 2] 1 2 \<lparr>dtype = kInt64, shape = [2, 3], elems = [1, 2, 3, 4, 5, 6::int]\<rparr>
         = Inr ys
       \<and> ConcatOp_RunImpl 1 ys = Inr \<lparr>dtype = kInt64, shape = [2, 3], elems = [1, 2, 3, 4, 5, 6::int]\<rparr>)
   \<and> (\<exists>ys. SplitOp_RunImpl [] 1 3 \<lparr>dtype = kInt64, shape = [2, 3], elems = [1, 2, 3, 4, 5, 6::int]\<rparr>
         = Inr ys \<and> length ys = 3
       \<and> ConcatOp_RunImpl 1 ys = Inr \<lparr>dtype = kInt64, shape = [2, 3], elems = [1, 2, 3, 4, 5, 6::int]\<rparr>)
   \<and> SplitOp_RunImpl [] 1 2 \<lparr>dtype = kInt64, shape = [2, 3], elems = [1, 2, 3, 4, 5, 6::int]\<rparr>
       = Inl CheckFailure"
proof -
  let ?x = "\<lparr>dtype = kInt64, shape = [2, 3], elems = [1, 2, 3, 4, 5, 6::int]\<rparr>"
  have wf: "well_formed ?x"
    by (simp add: well_formed_def dims_def)
  have ax: "(0::int) \<le> 1" "1 < int (length (shape ?x))"
    by simp_all
  have ev: "SplitOp_RunImpl [1, 2] 1 2 ?x
       = Inr [\<lparr>dtype = kInt64, shape = [2, 1], elems = [1, 4]\<rparr>,
              \<lparr>dtype = kInt64, shape = [2, 2], elems = [2, 3, 5, 6]\<rparr>]"
    by code_simp
  have a: "\<exists>ys. SplitOp_RunImpl [1, 2] 1 2 ?x = Inr ys \<and> ConcatOp_RunImpl 1 ys = Inr ?x"
    using Concat_Split_roundtrip [OF wf ax, of "[1, 2]" 2] by auto
  have b: "\<exists>ys. SplitOp_RunImpl [] 1 3 ?x = Inr ys \<and> length ys = 3 \<and> ConcatOp_RunImpl 1 ys = Inr ?x"
    using Concat_Split_roundtrip [OF wf ax, of "[1, 2]" 3] by auto
  have c: "SplitOp_RunImpl [] 1 2 ?x = Inl CheckFailure"
    using Concat_Split_roundtrip [OF wf ax, of "[1, 2]" 2] by simp
  from wf ev a b c show ?thesis by blast
qed

subsection \<open>Unsqueeze and Max\<close>

lemma Unsqueeze_loop_prod:
  "Unsqueeze_loop axes shp = Inr s \<Longrightarrow> prod_list s = prod_list shp"
proof (induction axes arbitrary: shp)
  case Nil
  then show ?case by simp
next
  case (Cons a axes)
  let ?d = "nat (int32 a)"
  from Cons.prems have "Unsqueeze_loop axes (take ?d shp @ 1 # drop ?d shp) = Inr s"
    by (simp add: Let_def split: if_splits)
  then have "prod_list s = prod_list (take ?d shp @ 1 # drop ?d shp)"
    by (rule Cons.IH)
  also have "\<dots> = prod_list (take ?d shp) * prod_list (drop ?d shp)"
    by simp
  also have "\<dots> = prod_list shp"
    by (metis append_take_drop_id prod_list.append)
  finally show ?case .
qed

text \<open>
  C10.  A fatal error is not reserved to positions greater than the current rank:
  the position \<open>-1\<close>, which is not greater than the rank 2, fails the check too.
\<close>

theorem Unsqueeze_negative_counterexample:
  "UnsqueezeOp_RunImpl [- 1] \<lparr>dtype = kInt64, shape = [2, 3], elems = [1, 2, 3, 4, 5, 6::int]\<rparr>
     = Inl CheckFailure
   \<and> \<not> (- 1 > int (length (shape \<lparr>dtype = kInt64, shape = [2, 3], elems = [1, 2, 3, 4, 5, 6::int]\<rparr>)))"
proof -
  have "int32 (- 1) = - 1"
    by (simp add: int32_id)
  then show ?thesis
    by (simp add: UnsqueezeOp_RunImpl_def to_size_t_def)
qed

lemma size_t_le_length:
  assumes "- (2 ^ 31) \<le> a" and "a < 2 ^ 31" and "int (length xs) < 2 ^ 63"
  shows "to_size_t a \<le> int (length xs) \<longleftrightarrow> 0 \<le> a \<and> a \<le> int (length xs)"
proof (cases "0 \<le> a")
  case True
  then have "to_size_t a = a"
    using assms(2) by (simp add: to_size_t_def)
  with True show ?thesis by simp
next
  case False
  have "a mod 2 ^ 64 = (a + 2 ^ 64) mod 2 ^ 64"
    by simp
  also have "\<dots> = a + 2 ^ 64"
    using False assms(1) by (intro mod_pos_pos_trivial) simp_all
  finally have "to_size_t a = a + 2 ^ 64"
    by (simp add: to_size_t_def)
  then have "int (length xs) < to_size_t a"
    using assms(1,3) by simp
  with False show ?thesis by simp
qed

lemma int32_range: "- (2 ^ 31) \<le> int32 a \<and> int32 a < 2 ^ 31"
  using signed_take_bit_int_greater_eq_minus_exp [of 31 a] signed_take_bit_int_less_exp [of 31 a]
  by (simp add: int32_def)

lemma Unsqueeze_loop_nonneg:
  "Unsqueeze_loop axes shp = Inr s \<Longrightarrow> list_all (\<lambda>d. 0 \<le> d) shp \<Longrightarrow> list_all (\<lambda>d. 0 \<le> d) s"
proof (induction axes arbitrary: shp)
  case Nil
  then show ?case by simp
next
  case (Cons a axes)
  let ?d = "nat (int32 a)"
  from Cons.prems(1) have run: "Unsqueeze_loop axes (take ?d shp @ 1 # drop ?d shp) = Inr s"
    by (simp add: Let_def split: if_splits)
  have "list_all (\<lambda>d. 0 \<le> d) (take ?d shp @ 1 # drop ?d shp)"
    using Cons.prems(2) by (auto simp: list_all_iff dest: in_set_takeD in_set_dropD)
  with run show ?case
    by (rule Cons.IH)
qed

text \<open>
  C10, as amended.  Unsqueeze inserts its size-1 axes one at a time in the order
  listed; each position is narrowed to a 32-bit \<^verbatim>\<open>int\<close> (which leaves a position
  within that range as it is) and read against the shape as extended so far, a
  shape of fewer than \<open>2\<^sup>6\<^sup>3\<close> axes.  A position is a fatal error exactly when
  its 32-bit value is negative or strictly greater than the current rank; a
  position whose 32-bit value equals the current rank appends a trailing size-1
  axis.  When no position fails and the sizes of the data are non-negative, the
  result is the data with the extended shape.
\<close>

theorem Unsqueeze_positions:
  assumes "int (length shp) < 2 ^ 63"
  shows "Unsqueeze_loop (a # axes) shp =
           (if int32 a < 0 \<or> int (length shp) < int32 a then Inl CheckFailure
            else Unsqueeze_loop axes (take (nat (int32 a)) shp @ 1 # drop (nat (int32 a)) shp))
       \<and> (int32 a = int (length shp) \<longrightarrow>
            Unsqueeze_loop (a # axes) shp = Unsqueeze_loop axes (shp @ [1]))
       \<and> (- (2 ^ 31) \<le> a \<and> a < 2 ^ 31 \<longrightarrow> int32 a = a)
       \<and> (list_all (\<lambda>d. 0 \<le> d) (shape data) \<and> Unsqueeze_loop (a # axes) (shape data) = Inr s \<longrightarrow>
            UnsqueezeOp_RunImpl (a # axes) data = Inr (data\<lparr>shape := s\<rparr>))"
proof -
  have r: "- (2 ^ 31) \<le> int32 a" "int32 a < 2 ^ 31"
    using int32_range [of a] by simp_all
  have step: "Unsqueeze_loop (a # axes) shp =
           (if int32 a < 0 \<or> int (length shp) < int32 a then Inl CheckFailure
            else Unsqueeze_loop axes (take (nat (int32 a)) shp @ 1 # drop (nat (int32 a)) shp))"
    using size_t_le_length [OF r assms] by (auto simp: Let_def)
  have app: "Unsqueeze_loop (a # axes) shp = Unsqueeze_loop axes (shp @ [1])"
    if "int32 a = int (length shp)"
    using that step by simp
  have same: "int32 a = a" if "- (2 ^ 31) \<le> a \<and> a < 2 ^ 31"
    using that by (simp add: int32_id)
  have run: "UnsqueezeOp_RunImpl (a # axes) data = Inr (data\<lparr>shape := s\<rparr>)"
    if "list_all (\<lambda>d. 0 \<le> d) (shape data) \<and> Unsqueeze_loop (a # axes) (shape data) = Inr s"
  proof -
    from that have l: "Unsqueeze_loop (a # axes) (shape data) = Inr s"
      and n: "list_all (\<lambda>d. 0 \<le> d) (shape data)"
      by simp_all
    have "prod_list s = prod_list (shape data)"
      using l by (rule Unsqueeze_loop_prod)
    moreover have "list_all (\<lambda>d. 0 \<le> d) s"
      using l n by (rule Unsqueeze_loop_nonneg)
    ultimately show ?thesis
      using l by (simp add: UnsqueezeOp_RunImpl_def Reshape_def GetTotalSize_def
          del: Unsqueeze_loop.simps)
  qed
  show ?thesis
    using step app same run by blast
qed

theorem Unsqueeze_positions_witness:
  "int (length [2, 3::int]) < 2 ^ 63
   \<and> Unsqueeze_loop [0, 3] [2, 3] = Inr [1, 2, 3, 1]
   \<and> UnsqueezeOp_RunImpl [0, 3] \<lparr>dtype = kInt64, shape = [2, 3], elems = [1, 2, 3, 4, 5, 6::int]\<rparr>
       = Inr \<lparr>dtype = kInt64, shape = [1, 2, 3, 1], elems = [1, 2, 3, 4, 5, 6]\<rparr>
   \<and> Unsqueeze_loop [3] [2, 3] = Inl CheckFailure
   \<and> Unsqueeze_loop [4294967296] [2, 3] = Inr [1, 2, 3]"
proof -
  let ?x = "\<lparr>dtype = kInt64, shape = [2, 3], elems = [1, 2, 3, 4, 5, 6::int]\<rparr>"
  have i0: "int32 0 = 0" and i3: "int32 3 = 3" and big: "int32 4294967296 = 0"
    by (simp_all add: int32_def)
  have sz: "to_size_t 3 = 3"
    by (simp add: to_size_t_def)
  have l3: "Unsqueeze_loop [3] [1, 2, 3] = Inr [1, 2, 3, 1]"
    by (simp add: i3 sz)
  have step0: "Unsqueeze_loop [0, 3] [2, 3] = Unsqueeze_loop [3] [1, 2, 3]"
    using Unsqueeze_positions [of "[2, 3]" 0 "[3]" ?x "[1, 2, 3, 1]"] i0
    by (simp del: Unsqueeze_loop.simps)
  have a: "Unsqueeze_loop [0, 3] [2, 3] = Inr [1, 2, 3, 1]"
    by (simp only: step0 l3)
  have b: "UnsqueezeOp_RunImpl [0, 3] ?x
       = Inr \<lparr>dtype = kInt64, shape = [1, 2, 3, 1], elems = [1, 2, 3, 4, 5, 6]\<rparr>"
    using Unsqueeze_positions [of "[2, 3]" 0 "[3]" ?x "[1, 2, 3, 1]"] a
    by (simp del: Unsqueeze_loop.simps)
  have c: "Unsqueeze_loop [3] [2, 3] = Inl CheckFailure"
    using Unsqueeze_positions [of "[2, 3]" 3 "[]" ?x "[1, 2, 3, 1]"] i3
    by (simp del: Unsqueeze_loop.simps)
  have d: "Unsqueeze_loop [4294967296] [2, 3] = Inr [1, 2, 3]"
    using Unsqueeze_positions [of "[2, 3]" 4294967296 "[]" ?x "[1, 2, 3, 1]"] big
    by simp
  from a b c d show ?thesis by simp
qed

lemma Max_fold_append:
  "Max_fold r (xs @ ys) =
     (case Max_fold r xs of
        (w, Inl e) \<Rightarrow> (w, Inl e)
      | (w, Inr r') \<Rightarrow> (case Max_fold r' ys of (w', res) \<Rightarrow> (w @ w', res)))"
proof (induction xs arbitrary: r)
  case Nil
  then show ?case by (simp split: prod.splits)
next
  case (Cons x xs)
  show ?case
  proof (cases "ElementwiseMax r x")
    case (Pair w res)
    show ?thesis
    proof (cases res)
      case (Inl e)
      with Pair show ?thesis by simp
    next
      case (Inr r')
      with Pair show ?thesis
        by (simp add: Cons.IH split: prod.splits sum.splits)
    qed
  qed
qed

text \<open>
  C7.  At a step of the fold of Max whose operands \<open>a\<close> (the result so far) and
  \<open>b\<close> (the next input) have different total sizes, neither of them 1, the run
  aborts with a fatal error at once, whatever inputs follow; and the slow
  per-element path is entered only with operands of equal total size.
\<close>

theorem ElementwiseMax_size_check:
  "(GetTotalSize a \<noteq> GetTotalSize b \<and> GetTotalSize a \<noteq> 1 \<and> GetTotalSize b \<noteq> 1 \<longrightarrow>
      ElementwiseMax a b = ([], Inl CheckFailure)
      \<and> (MaxOp_RunImpl (x # pre) = (w, Inr a) \<longrightarrow>
           MaxOp_RunImpl (x # pre @ b # post) = (w, Inl CheckFailure)))
   \<and> (''Slow element-wise Max'' \<in> set (fst (ElementwiseMax a b)) \<longrightarrow>
        GetTotalSize a = GetTotalSize b)"
proof -
  have chk: "ElementwiseMax a b = ([], Inl CheckFailure)"
    if "GetTotalSize a \<noteq> GetTotalSize b" "GetTotalSize a \<noteq> 1" "GetTotalSize b \<noteq> 1"
    using that by (simp add: ElementwiseMax_def Let_def)
  have fold: "MaxOp_RunImpl (x # pre @ b # post) = (w, Inl CheckFailure)"
    if "ElementwiseMax a b = ([], Inl CheckFailure)" "MaxOp_RunImpl (x # pre) = (w, Inr a)"
    using that by (simp add: MaxOp_RunImpl_def Max_fold_append)
  have slow: "GetTotalSize a = GetTotalSize b"
    if "''Slow element-wise Max'' \<in> set (fst (ElementwiseMax a b))"
    using that by (simp add: ElementwiseMax_def Let_def split: if_splits)
  show ?thesis
    using chk fold slow by blast
qed

theorem ElementwiseMax_size_check_witness:
  "GetTotalSize \<lparr>dtype = kInt64, shape = [2, 2], elems = [5, 7, 8, 4::int]\<rparr>
     \<noteq> GetTotalSize \<lparr>dtype = kInt64, shape = [2], elems = [1, 9::int]\<rparr>
   \<and> ElementwiseMax \<lparr>dtype = kInt64, shape = [2, 2], elems = [5, 7, 8, 4::int]\<rparr>
        \<lparr>dtype = kInt64, shape = [2], elems = [1, 9]\<rparr> = ([], Inl CheckFailure)
   \<and> MaxOp_RunImpl [\<lparr>dtype = kInt64, shape = [2, 2], elems = [1, 7, 3, 4::int]\<rparr>,
                     \<lparr>dtype = kInt64, shape = [4], elems = [5, 2, 8, 0]\<rparr>]
       = ([''Slow element-wise Max''], Inr \<lparr>dtype = kInt64, shape = [2, 2], elems = [5, 7, 8, 4]\<rparr>)
   \<and> MaxOp_RunImpl [\<lparr>dtype = kInt64, shape = [2, 2], elems = [1, 7, 3, 4::int]\<rparr>,
                     \<lparr>dtype = kInt64, shape = [4], elems = [5, 2, 8, 0]\<rparr>,
                     \<lparr>dtype = kInt64, shape = [2], elems = [1, 9]\<rparr>,
                     \<lparr>dtype = kInt64, shape = [], elems = [4]\<rparr>]
       = ([''Slow element-wise Max''], Inl CheckFailure)
   \<and> GetTotalSize \<lparr>dtype = kInt64, shape = [2, 2], elems = [1, 7, 3, 4::int]\<rparr>
       = GetTotalSize \<lparr>dtype = kInt64, shape = [4], elems = [5, 2, 8, 0::int]\<rparr>"
proof -
  let ?a = "\<lparr>dtype = kInt64, shape = [2, 2], elems = [5, 7, 8, 4::int]\<rparr>"
  let ?b = "\<lparr>dtype = kInt64, shape = [2], elems = [1, 9::int]\<rparr>"
  let ?x = "\<lparr>dtype = kInt64, shape = [2, 2], elems = [1, 7, 3, 4::int]\<rparr>"
  let ?y = "\<lparr>dtype = kInt64, shape = [4], elems = [5, 2, 8, 0::int]\<rparr>"
  let ?z = "\<lparr>dtype = kInt64, shape = [], elems = [4::int]\<rparr>"
  have sizes: "GetTotalSize ?a \<noteq> GetTotalSize ?b \<and> GetTotalSize ?a \<noteq> 1 \<and> GetTotalSize ?b \<noteq> 1"
    by (simp add: GetTotalSize_def)
  have run: "MaxOp_RunImpl [?x, ?y] = ([''Slow element-wise Max''], Inr ?a)"
    by code_simp
  have "MaxOp_RunImpl (?x # [?y] @ ?b # [?z]) = ([''Slow element-wise Max''], Inl CheckFailure)"
    and e: "ElementwiseMax ?a ?b = ([], Inl CheckFailure)"
    using ElementwiseMax_size_check [of ?a ?b ?x "[?y]" "[''Slow element-wise Max'']" "[?z]"] sizes run
    by simp_all
  moreover have "GetTotalSize ?x = GetTotalSize ?y"
    by (simp add: GetTotalSize_def)
  ultimately show ?thesis
    using sizes run by simp
qed

subsection \<open>Gemm\<close>

lemma int32_mult_left: "int32 (int32 x * y) = int32 (x * y)"
proof -
  have "int32 (int32 x * y) = int32 (int32 (int32 x) * int32 y)"
    unfolding int32_def by (simp only: signed_take_bit_mult)
  also have "\<dots> = int32 (int32 x * int32 y)"
    by (simp add: int32_def)
  also have "\<dots> = int32 (x * y)"
    unfolding int32_def by (simp only: signed_take_bit_mult)
  finally show ?thesis .
qed

lemma Gemm_last_dim_wrapped: "Gemm_last_dim (int32 l) ds = int32 (l * prod_list ds)"
proof (induction ds arbitrary: l)
  case Nil
  then show ?case by simp
next
  case (Cons d ds)
  have "Gemm_last_dim (int32 l) (d # ds) = Gemm_last_dim (int32 (int32 l * d)) ds"
    by simp
  also have "\<dots> = int32 (int32 l * d * prod_list ds)"
    by (rule Cons.IH)
  also have "\<dots> = int32 (l * (d * prod_list ds))"
    by (simp only: mult.assoc int32_mult_left)
  finally show ?case by simp
qed

lemma Gemm_last_dim_prod:
  assumes "- (2 ^ 31) \<le> prod_list ds" and "prod_list ds < 2 ^ 31"
  shows "Gemm_last_dim 1 ds = prod_list ds"
proof -
  have "int32 1 = 1"
    by (simp add: int32_id)
  then have "Gemm_last_dim 1 ds = int32 (1 * prod_list ds)"
    using Gemm_last_dim_wrapped [of 1 ds] by simp
  then show ?thesis
    using assms by (simp add: int32_id)
qed

lemma prod_list_nonneg_sizes: "list_all (\<lambda>d. 0 \<le> d) xs \<Longrightarrow> (0::int) \<le> prod_list xs"
  by (induction xs) simp_all

lemma Gemm_flatten_trailing:
  assumes "2 < length (shape x) \<longrightarrow>
      list_all (\<lambda>d. 0 \<le> d) (shape x) \<and> prod_list (tl (shape x)) < 2 ^ 31"
  shows "Gemm_flatten x = Inr (flatten_trailing x)"
proof (cases "2 < length (shape x)")
  case True
  then obtain d ds where s: "shape x = d # ds"
    by (cases "shape x") auto
  have nn: "0 \<le> d" "list_all (\<lambda>d. 0 \<le> d) ds"
    using assms True s by simp_all
  then have p0: "0 \<le> prod_list ds"
    by (simp add: prod_list_nonneg_sizes)
  have "Gemm_last_dim 1 ds = prod_list ds"
    using assms True s p0 by (intro Gemm_last_dim_prod) simp_all
  with True s nn p0 show ?thesis
    by (simp add: Gemm_flatten_def flatten_trailing_def Reshape_def GetTotalSize_def)
next
  case False
  then show ?thesis
    by (simp add: Gemm_flatten_def flatten_trailing_def)
qed

lemma Gemm_Dot:
  assumes "Gemm_flatten (if trans_a then Transpose a else a) = Inr xa"
    and "Gemm_flatten (if trans_b then Transpose b else b) = Inr xb"
  shows "GemmOp_RunImpl 1 0 trans_a trans_b a b c = Dot xa xb"
  using assms by (simp add: GemmOp_RunImpl_def Let_def split: sum.splits)

lemma Gemm_no_bias:
  "GemmOp_RunImpl alpha 0 trans_a trans_b a b c = GemmOp_RunImpl alpha 0 trans_a trans_b a b c'"
  by (simp add: GemmOp_RunImpl_def Let_def split: sum.splits)

text \<open>
  C5.  The claim fails where the flattened size leaves the range of \<^verbatim>\<open>int\<close>: for
  an empty \<open>A\<close> of shape \<open>(0, 65536, 65536)\<close> the kernel's \<^verbatim>\<open>int last_dim\<close> narrows
  \<open>2\<^sup>3\<^sup>2\<close> to 0 and \<open>A\<close> is reshaped to \<open>(0, 0)\<close>, so that with a \<open>B\<close> of shape
  \<open>(0, 2)\<close> Gemm yields an array of shape \<open>(0, 2)\<close>, whereas the Dot of \<open>A\<close>
  flattened to \<open>(0, 2\<^sup>3\<^sup>2)\<close> with \<open>B\<close> is a dimension error.
\<close>

theorem Gemm_narrowing_counterexample:
  "GemmOp_RunImpl 1 0 False False
     \<lparr>dtype = kFloat32, shape = [0, 65536, 65536], elems = ([]::int list)\<rparr>
     \<lparr>dtype = kFloat32, shape = [0, 2], elems = []\<rparr>
     \<lparr>dtype = kFloat32, shape = [2], elems = [0, 0]\<rparr>
     = Inr \<lparr>dtype = kFloat32, shape = [0, 2], elems = []\<rparr>
   \<and> Dot (flatten_trailing \<lparr>dtype = kFloat32, shape = [0, 65536, 65536], elems = ([]::int list)\<rparr>)
         (flatten_trailing \<lparr>dtype = kFloat32, shape = [0, 2], elems = []\<rparr>)
     = Inl EngineError"
  by code_simp

text \<open>
  C5, as amended.  Let \<open>alpha = 1\<close> and \<open>beta = 0\<close>, and let every operand of more
  than two axes have non-negative sizes and, after its optional transpose, a
  product of the sizes beyond the first below \<open>2\<^sup>3\<^sup>1\<close>.  Then Gemm of \<open>A\<close>, \<open>B\<close>
  and \<open>C\<close> is the Dot of \<open>A'\<close> and \<open>B'\<close>, the operands after the optional transposes
  and, for more than two axes, after flattening the axes beyond the first into
  one.  With \<open>beta = 0\<close> the result never depends on \<open>C\<close>.  In particular an \<open>A\<close>
  of shape \<open>(3, 4, 2, 2)\<close> is flattened to \<open>(3, 16)\<close> and with a \<open>B\<close> of shape
  \<open>(16, 2)\<close> and of the dtype of \<open>A\<close> the result has shape \<open>(3, 2)\<close>.
\<close>

theorem Gemm_is_Dot:
  assumes "2 < length (shape a) \<longrightarrow>
      list_all (\<lambda>d. 0 \<le> d) (shape a)
      \<and> prod_list (tl (shape (if trans_a then Transpose a else a))) < 2 ^ 31"
    and "2 < length (shape b) \<longrightarrow>
      list_all (\<lambda>d. 0 \<le> d) (shape b)
      \<and> prod_list (tl (shape (if trans_b then Transpose b else b))) < 2 ^ 31"
  shows "GemmOp_RunImpl 1 0 trans_a trans_b a b c
           = Dot (flatten_trailing (if trans_a then Transpose a else a))
                 (flatten_trailing (if trans_b then Transpose b else b))
       \<and> GemmOp_RunImpl alpha 0 trans_a trans_b a b c = GemmOp_RunImpl alpha 0 trans_a trans_b a b c'
       \<and> (shape a = [3, 4, 2, 2] \<and> shape b = [16, 2] \<and> dtype a = dtype b \<longrightarrow>
            Gemm_flatten a = Inr (a\<lparr>shape := [3, 16]\<rparr>)
            \<and> (\<exists>r. GemmOp_RunImpl 1 0 False False a b c = Inr r \<and> shape r = [3, 2]))"
proof -
  let ?xa = "if trans_a then Transpose a else a" and ?xb = "if trans_b then Transpose b else b"
  have la: "length (shape ?xa) = length (shape a)" and lb: "length (shape ?xb) = length (shape b)"
    by (simp_all add: Transpose_def)
  have na: "list_all (\<lambda>d. 0 \<le> d) (shape ?xa) = list_all (\<lambda>d. 0 \<le> d) (shape a)"
    and nb: "list_all (\<lambda>d. 0 \<le> d) (shape ?xb) = list_all (\<lambda>d. 0 \<le> d) (shape b)"
    by (simp_all add: Transpose_def list_all_iff)
  have fa: "Gemm_flatten ?xa = Inr (flatten_trailing ?xa)"
  proof (rule Gemm_flatten_trailing, rule impI)
    assume "2 < length (shape ?xa)"
    then have "2 < length (shape a)" using la by simp
    with assms(1) na show "list_all (\<lambda>d. 0 \<le> d) (shape ?xa) \<and> prod_list (tl (shape ?xa)) < 2 ^ 31"
      by simp
  qed
  have fb: "Gemm_flatten ?xb = Inr (flatten_trailing ?xb)"
  proof (rule Gemm_flatten_trailing, rule impI)
    assume "2 < length (shape ?xb)"
    then have "2 < length (shape b)" using lb by simp
    with assms(2) nb show "list_all (\<lambda>d. 0 \<le> d) (shape ?xb) \<and> prod_list (tl (shape ?xb)) < 2 ^ 31"
      by simp
  qed
  have one: "GemmOp_RunImpl 1 0 trans_a trans_b a b c = Dot (flatten_trailing ?xa) (flatten_trailing ?xb)"
    using fa fb by (rule Gemm_Dot)
  have two: "GemmOp_RunImpl alpha 0 trans_a trans_b a b c = GemmOp_RunImpl alpha 0 trans_a trans_b a b c'"
    by (rule Gemm_no_bias)
  have three: "Gemm_flatten a = Inr (a\<lparr>shape := [3, 16]\<rparr>)
      \<and> (\<exists>r. GemmOp_RunImpl 1 0 False False a b c = Inr r \<and> shape r = [3, 2])"
    if s: "shape a = [3, 4, 2, 2]" "shape b = [16, 2]" "dtype a = dtype b"
  proof -
    have ga: "Gemm_flatten a = Inr (a\<lparr>shape := [3, 16]\<rparr>)"
      using Gemm_flatten_trailing [of a] s(1) by (simp add: flatten_trailing_def)
    have gb: "Gemm_flatten b = Inr b"
      using s(2) by (simp add: Gemm_flatten_def)
    have "GemmOp_RunImpl 1 0 False False a b c = Dot (a\<lparr>shape := [3, 16]\<rparr>) b"
      using Gemm_Dot [of False a _ False b b c] ga gb by simp
    moreover have "\<exists>r. Dot (a\<lparr>shape := [3, 16]\<rparr>) b = Inr r \<and> shape r = [3, 2]"
      using s by (simp add: Dot_def Let_def)
    ultimately show ?thesis
      using ga by simp
  qed
  show ?thesis
    using one two three by blast
qed

theorem Gemm_is_Dot_witness:
  "shape \<lparr>dtype = kFloat32, shape = [3, 4, 2, 2], elems = replicate 48 (1::int)\<rparr> = [3, 4, 2, 2]
   \<and> prod_list (tl (shape \<lparr>dtype = kFloat32, shape = [3, 4, 2, 2], elems = replicate 48 (1::int)\<rparr>)) < 2 ^ 31
   \<and> GemmOp_RunImpl 1 0 False False
        \<lparr>dtype = kFloat32, shape = [3, 4, 2, 2], elems = replicate 48 (1::int)\<rparr>
        \<lparr>dtype = kFloat32, shape = [16, 2], elems = replicate 32 2\<rparr>
        \<lparr>dtype = kFloat32, shape = [2], elems = [10, 20]\<rparr>
       = Dot \<lparr>dtype = kFloat32, shape = [3, 16], elems = replicate 48 1\<rparr>
             \<lparr>dtype = kFloat32, shape = [16, 2], elems = replicate 32 2\<rparr>
   \<and> (\<exists>r. GemmOp_RunImpl 1 0 False False
        \<lparr>dtype = kFloat32, shape = [3, 4, 2, 2], elems = replicate 48 (1::int)\<rparr>
        \<lparr>dtype = kFloat32, shape = [16, 2], elems = replicate 32 2\<rparr>
        \<lparr>dtype = kFloat32, shape = [2], elems = [10, 20]\<rparr> = Inr r \<and> shape r = [3, 2])"
  using Gemm_is_Dot [of "\<lparr>dtype = kFloat32, shape = [3, 4, 2, 2], elems = replicate 48 (1::int)\<rparr>"
      False "\<lparr>dtype = kFloat32, shape = [16, 2], elems = replicate 32 2\<rparr>" False
      "\<lparr>dtype = kFloat32, shape = [2], elems = [10, 20]\<rparr>" 1
      "\<lparr>dtype = kFloat32, shape = [2], elems = [10, 20]\<rparr>"]
  by (simp add: flatten_trailing_def) metis

end
